theory Spec2Isabelle
  imports Complex_Main "HOL-Library.Word" "HOL-Library.Log_Nat"
begin

section \<open>Failures of the C++ code as values\<close>

text \<open>
  Every way in which the modelled C++ can leave the normal control flow is a constructor:
  the exceptions it throws, and the undefined behaviour of an unchecked access outside a
  vector, of dereferencing the end iterator that \<^verbatim>\<open>std::max_element\<close> returns for an
  empty range, and of \<^verbatim>\<open>std::get\<close> on the alternative a variant does not hold.
  \<^verbatim>\<open>WrongTemplateParameterException\<close> is a member class of the template \<^verbatim>\<open>Coloring\<close>, one
  class for each template parameter \<^verbatim>\<open>colorset_t\<close>: the three color set classes that
  \<^verbatim>\<open>Coloring::serialize\<close> knows, and any other.
\<close>

datatype colorset_t = Color_Set_t | Roaring_Color_Set_t | Bit_Magic_Color_Set_t | Other_Color_Set_t

datatype error =
    Out_Of_Bounds
  | Empty_Range
  | Bad_Variant_Access
  | Runtime_Error string
  | WrongTemplateParameterException colorset_t
  | Stream_Failure
  | Domain_Failure
  | Null_Pointer

section \<open>Bit-packed integer vectors (\<^verbatim>\<open>sdsl::int_vector<>\<close>)\<close>

text \<open>
  An \<^verbatim>\<open>sdsl::int_vector<>\<close> stores every element in \<open>width\<close> bits: a write keeps the low
  \<open>width\<close> bits of the value. A \<^verbatim>\<open>sdsl::bit_vector\<close> is a \<open>bool list\<close>. Colors, positions
  and lengths are \<^verbatim>\<open>int64_t\<close> in the source and never negative; they are \<open>nat\<close> here.
\<close>

record int_vector =
  width :: nat
  elems :: "nat list"

definition int_vector_new :: "nat \<Rightarrow> nat \<Rightarrow> nat \<Rightarrow> int_vector" where
  "int_vector_new n d w = \<lparr>width = w, elems = replicate n (d mod 2 ^ w)\<rparr>"

definition iv_write :: "int_vector \<Rightarrow> nat \<Rightarrow> nat \<Rightarrow> error + int_vector" where
  "iv_write iv i v =
     (if i < length (elems iv) then Inr (iv\<lparr>elems := (elems iv)[i := v mod 2 ^ width iv]\<rparr>)
      else Inl Out_Of_Bounds)"

definition iv_read :: "int_vector \<Rightarrow> nat \<Rightarrow> error + nat" where
  "iv_read iv i = (if i < length (elems iv) then Inr (elems iv ! i) else Inl Out_Of_Bounds)"

definition bv_read :: "bool list \<Rightarrow> nat \<Rightarrow> error + bool" where
  "bv_read bv i = (if i < length bv then Inr (bv ! i) else Inl Out_Of_Bounds)"

section \<open>Color sets and color set views\<close>

text \<open>
  \<^verbatim>\<open>Color_Set\<close> and \<^verbatim>\<open>Color_Set_View\<close> have the same three fields (the variant
  \<open>data_ptr\<close>, \<open>start\<close> and \<open>length\<close>, here \<open>len\<close>) and share the template functions
  \<^verbatim>\<open>colorset_*\<close>. A view points into a vector that nobody writes while the view lives,
  so the pointer is modelled by the vector it points to.
\<close>

datatype data_ptr = Bitmap "bool list" | Array int_vector

record colorset =
  data_ptr :: data_ptr
  start :: nat
  len :: nat

definition colorset_is_empty :: "colorset \<Rightarrow> bool" where
  "colorset_is_empty cs = (len cs = 0)"

definition colorset_is_bitmap :: "colorset \<Rightarrow> bool" where
  "colorset_is_bitmap cs = (case data_ptr cs of Bitmap _ \<Rightarrow> True | Array _ \<Rightarrow> False)"

definition colorset_access_bitmap :: "colorset \<Rightarrow> nat \<Rightarrow> error + bool" where
  "colorset_access_bitmap cs idx =
     (case data_ptr cs of
        Bitmap bv \<Rightarrow> bv_read bv (start cs + idx)
      | Array _ \<Rightarrow> Inl Bad_Variant_Access)"

definition colorset_access_array :: "colorset \<Rightarrow> nat \<Rightarrow> error + nat" where
  "colorset_access_array cs idx =
     (case data_ptr cs of
        Bitmap _ \<Rightarrow> Inl Bad_Variant_Access
      | Array iv \<Rightarrow> iv_read iv (start cs + idx))"

text \<open>The two loops of \<^verbatim>\<open>colorset_get_colors_as_vector\<close>, with the vector built so far.\<close>

function bitmap_colors_loop :: "colorset \<Rightarrow> nat \<Rightarrow> nat list \<Rightarrow> error + nat list" where
  "bitmap_colors_loop cs i vec =
     (if i < len cs then
        (case colorset_access_bitmap cs i of
           Inl e \<Rightarrow> Inl e
         | Inr b \<Rightarrow> bitmap_colors_loop cs (i + 1) (if b then vec @ [i] else vec))
      else Inr vec)"
  by pat_completeness auto
termination
  by (relation "measure (\<lambda>(cs, i, vec). len cs - i)") auto

function array_colors_loop :: "colorset \<Rightarrow> nat \<Rightarrow> nat list \<Rightarrow> error + nat list" where
  "array_colors_loop cs i vec =
     (if i < len cs then
        (case colorset_access_array cs i of
           Inl e \<Rightarrow> Inl e
         | Inr v \<Rightarrow> array_colors_loop cs (i + 1) (vec @ [v]))
      else Inr vec)"
  by pat_completeness auto
termination
  by (relation "measure (\<lambda>(cs, i, vec). len cs - i)") auto

definition colorset_get_colors_as_vector :: "colorset \<Rightarrow> error + nat list" where
  "colorset_get_colors_as_vector cs =
     (if colorset_is_bitmap cs then bitmap_colors_loop cs 0 []
      else array_colors_loop cs 0 [])"

text \<open>The linear scan of \<^verbatim>\<open>colorset_contains\<close> over an array, from position \<open>i\<close>.\<close>

function contains_scan :: "colorset \<Rightarrow> nat \<Rightarrow> nat \<Rightarrow> error + bool" where
  "contains_scan cs color i =
     (if i < len cs then
        (case colorset_access_array cs i of
           Inl e \<Rightarrow> Inl e
         | Inr v \<Rightarrow> if v = color then Inr True else contains_scan cs color (i + 1))
      else Inr False)"
  by pat_completeness auto
termination
  by (relation "measure (\<lambda>(cs, color, i). len cs - i)") auto

definition colorset_contains :: "colorset \<Rightarrow> nat \<Rightarrow> error + bool" where
  "colorset_contains cs color =
     (if colorset_is_bitmap cs then
        (if color \<ge> len cs then Inr False else colorset_access_bitmap cs color)
      else contains_scan cs color 0)"

text \<open>
  A color set or view is within its vector when the span \<open>[start, start + len)\<close> lies
  inside the vector \<open>data_ptr\<close> points to.
\<close>

definition data_size :: "data_ptr \<Rightarrow> nat" where
  "data_size d = (case d of Bitmap bv \<Rightarrow> length bv | Array iv \<Rightarrow> length (elems iv))"

definition within_vector :: "colorset \<Rightarrow> bool" where
  "within_vector cs = (start cs + len cs \<le> data_size (data_ptr cs))"

text \<open>The colors a set within its vector holds, read off the representation.\<close>

definition colors_of :: "colorset \<Rightarrow> nat list" where
  "colors_of cs =
     (case data_ptr cs of
        Bitmap bv \<Rightarrow> filter (\<lambda>i. bv ! (start cs + i)) [0..<len cs]
      | Array iv \<Rightarrow> take (len cs) (drop (start cs) (elems iv)))"

section \<open>Choosing the representation\<close>

text \<open>
  \<^verbatim>\<open>*std::max_element(set.begin(), set.end())\<close>: the largest element, and the dereference
  of the end iterator when the vector is empty.
\<close>

definition max_element :: "nat list \<Rightarrow> error + nat" where
  "max_element v = (case v of [] \<Rightarrow> Inl Empty_Range | x # xs \<Rightarrow> Inr (fold max xs x))"

text \<open>
  The test \<^verbatim>\<open>log2(max_element) * set.size() > max_element\<close> that the constructor and
  \<^verbatim>\<open>add_set\<close> both make. The source computes it in doubles; here it is computed in the
  reals. \<^verbatim>\<open>log2(0)\<close> is minus infinity, so that the comparison is false when the largest
  element is 0.
\<close>

definition bitmap_is_chosen :: "nat \<Rightarrow> nat \<Rightarrow> bool" where
  "bitmap_is_chosen max_elem sz \<longleftrightarrow>
     max_elem \<noteq> 0 \<and> log 2 (real max_elem) * real sz > real max_elem"

text \<open>
  \<^verbatim>\<open>vector<bool> bitmap(max_element+1, 0); for(int64_t x : set) bitmap[x] = 1;\<close>
\<close>

definition make_bitmap :: "nat \<Rightarrow> nat list \<Rightarrow> bool list" where
  "make_bitmap max_elem colors =
     fold (\<lambda>x bv. bv[x := True]) colors (replicate (max_elem + 1) False)"

text \<open>
  \<^verbatim>\<open>Color_Set(const vector<int64_t>& set)\<close>. The array is a default
  \<^verbatim>\<open>sdsl::int_vector<>\<close>, 64 bits wide.
\<close>

definition Color_Set_from_vector :: "nat list \<Rightarrow> error + colorset" where
  "Color_Set_from_vector colors =
     (case max_element colors of
        Inl e \<Rightarrow> Inl e
      | Inr m \<Rightarrow>
          if bitmap_is_chosen m (length colors) then
            Inr \<lparr>data_ptr = Bitmap (make_bitmap m colors), start = 0, len = m + 1\<rparr>
          else
            Inr \<lparr>data_ptr = Array \<lparr>width = 64, elems = map (\<lambda>i. (colors ! i) mod 2 ^ 64) [0..<length colors]\<rparr>,
                 start = 0, len = length colors\<rparr>)"

section \<open>The storage of all distinct color sets\<close>

text \<open>
  The specialisation \<^verbatim>\<open>Color_Set_Storage<Color_Set, Color_Set_View>\<close>. The rank support
  \<^verbatim>\<open>is_bitmap_marks_rs\<close> answers rank queries on \<open>is_bitmap_marks\<close> and holds no
  data of its own; it is modelled by \<open>rs_rank\<close> on that vector.
\<close>

record color_set_storage =
  bitmap_concat :: "bool list"
  bitmap_starts :: int_vector
  arrays_concat :: int_vector
  arrays_starts :: int_vector
  is_bitmap_marks :: "bool list"
  temp_bitmap_concat :: "bool list"
  temp_arrays_concat :: "nat list"
  temp_bitmap_starts :: "nat list"
  temp_arrays_starts :: "nat list"
  temp_is_bitmap_marks :: "bool list"

text \<open>The default constructor: every vector is empty.\<close>

definition empty_int_vector :: int_vector where
  "empty_int_vector = \<lparr>width = 64, elems = []\<rparr>"

definition Color_Set_Storage_empty :: color_set_storage where
  "Color_Set_Storage_empty =
     \<lparr>bitmap_concat = [], bitmap_starts = empty_int_vector, arrays_concat = empty_int_vector,
      arrays_starts = empty_int_vector, is_bitmap_marks = [],
      temp_bitmap_concat = [], temp_arrays_concat = [], temp_bitmap_starts = [],
      temp_arrays_starts = [], temp_is_bitmap_marks = []\<rparr>"

text \<open>\<^verbatim>\<open>std::bit_width\<close> is \<open>floorlog 2\<close>: 0 for 0, and \<open>\<lfloor>log\<^sub>2 x\<rfloor> + 1\<close> otherwise.\<close>

definition bits_needed :: "nat \<Rightarrow> nat" where
  "bits_needed x = max (floorlog 2 x) 1"

definition to_sdsl_bit_vector :: "bool list \<Rightarrow> bool list" where
  "to_sdsl_bit_vector v = (if length v = 0 then [] else map (\<lambda>i. v ! i) [0..<length v])"

definition to_sdsl_int_vector :: "nat list \<Rightarrow> int_vector" where
  "to_sdsl_int_vector v =
     (case max_element v of
        Inl _ \<Rightarrow> empty_int_vector
      | Inr m \<Rightarrow>
          \<lparr>width = bits_needed m,
           elems = map (\<lambda>i. (v ! i) mod 2 ^ bits_needed m) [0..<length v]\<rparr>)"

text \<open>\<^verbatim>\<open>rank(idx)\<close> of the rank support: the number of set bits before position \<open>idx\<close>.\<close>

definition rs_rank :: "bool list \<Rightarrow> nat \<Rightarrow> error + nat" where
  "rs_rank bv idx =
     (if idx \<le> length bv then Inr (length (filter (\<lambda>b. b) (take idx bv))) else Inl Out_Of_Bounds)"

text \<open>
  \<^verbatim>\<open>get_color_set_by_id\<close>. The length \<^verbatim>\<open>end-start\<close> is a subtraction of \<^verbatim>\<open>int64_t\<close>;
  where \<open>end < start\<close> the source's negative length and the 0 of \<open>nat\<close> both make every
  loop over the view run zero times.
\<close>

definition get_color_set_by_id :: "color_set_storage \<Rightarrow> nat \<Rightarrow> error + colorset" where
  "get_color_set_by_id st cid =
     (case bv_read (is_bitmap_marks st) cid of
        Inl e \<Rightarrow> Inl e
      | Inr mark \<Rightarrow>
         (case rs_rank (is_bitmap_marks st) cid of
            Inl e \<Rightarrow> Inl e
          | Inr r \<Rightarrow>
              if mark then
                (case iv_read (bitmap_starts st) r of
                   Inl e \<Rightarrow> Inl e
                 | Inr s \<Rightarrow>
                    (case iv_read (bitmap_starts st) (r + 1) of
                       Inl e \<Rightarrow> Inl e
                     | Inr e \<Rightarrow> Inr \<lparr>data_ptr = Bitmap (bitmap_concat st), start = s, len = e - s\<rparr>))
              else
                (case iv_read (arrays_starts st) (cid - r) of
                   Inl e \<Rightarrow> Inl e
                 | Inr s \<Rightarrow>
                    (case iv_read (arrays_starts st) (cid - r + 1) of
                       Inl e \<Rightarrow> Inl e
                     | Inr e \<Rightarrow> Inr \<lparr>data_ptr = Array (arrays_concat st), start = s, len = e - s\<rparr>))))"

definition add_set :: "nat list \<Rightarrow> color_set_storage \<Rightarrow> error + color_set_storage" where
  "add_set colors st =
     (case max_element colors of
        Inl e \<Rightarrow> Inl e
      | Inr m \<Rightarrow>
          if bitmap_is_chosen m (length colors) then
            Inr (st\<lparr>temp_is_bitmap_marks := temp_is_bitmap_marks st @ [True],
                    temp_bitmap_starts := temp_bitmap_starts st @ [length (temp_bitmap_concat st)],
                    temp_bitmap_concat := temp_bitmap_concat st @ make_bitmap m colors\<rparr>)
          else
            Inr (st\<lparr>temp_is_bitmap_marks := temp_is_bitmap_marks st @ [False],
                    temp_arrays_starts := temp_arrays_starts st @ [length (temp_arrays_concat st)],
                    temp_arrays_concat := temp_arrays_concat st @ map (\<lambda>i. colors ! i) [0..<length colors]\<rparr>))"

definition prepare_for_queries :: "color_set_storage \<Rightarrow> color_set_storage" where
  "prepare_for_queries st =
     (let bstarts = temp_bitmap_starts st @ [length (temp_bitmap_concat st)];
          astarts = temp_arrays_starts st @ [length (temp_arrays_concat st)]
      in st\<lparr>arrays_concat := to_sdsl_int_vector (temp_arrays_concat st),
             bitmap_starts := to_sdsl_int_vector bstarts,
             arrays_starts := to_sdsl_int_vector astarts,
             bitmap_concat := to_sdsl_bit_vector (temp_bitmap_concat st),
             is_bitmap_marks := to_sdsl_bit_vector (temp_is_bitmap_marks st),
             temp_arrays_concat := [], temp_bitmap_concat := [], temp_is_bitmap_marks := [],
             temp_arrays_starts := [], temp_bitmap_starts := []\<rparr>)"

text \<open>
  The build protocol: \<^verbatim>\<open>add_set\<close> for each vector in turn on a fresh storage, then
  \<^verbatim>\<open>prepare_for_queries\<close>.
\<close>

fun add_sets :: "nat list list \<Rightarrow> color_set_storage \<Rightarrow> error + color_set_storage" where
  "add_sets [] st = Inr st"
| "add_sets (V # Vs) st = (case add_set V st of Inl e \<Rightarrow> Inl e | Inr st' \<Rightarrow> add_sets Vs st')"

definition build_storage :: "nat list list \<Rightarrow> error + color_set_storage" where
  "build_storage Vs =
     (case add_sets Vs Color_Set_Storage_empty of
        Inl e \<Rightarrow> Inl e
      | Inr st \<Rightarrow> Inr (prepare_for_queries st))"


section \<open>Intersection\<close>

text \<open>
  The header declares the four routines below and states their contracts; their bodies are
  in a source file that is not among the sources, so each is modelled from the contract and
  from the specification's description of the algorithm. Each returns the vector it wrote
  into and the new logical length; the vector is not resized, and what lay past the new
  length stays in place. A read outside a vector is a failure.
\<close>

text \<open>
  Modelled from the spec: \<^verbatim>\<open>bitmap_vs_bitmap_intersection\<close>, whose body is missing. "Bitwise
  AND of the two bitmap spans; result length = min of lengths."
\<close>

definition bitmap_vs_bitmap_intersection ::
    "bool list \<Rightarrow> nat \<Rightarrow> bool list \<Rightarrow> nat \<Rightarrow> nat \<Rightarrow> error + (bool list \<times> nat)" where
  "bitmap_vs_bitmap_intersection A A_size B B_start B_size =
     (let n = min A_size B_size in
      if n \<le> length A \<and> B_start + n \<le> length B then
        Inr (map (\<lambda>i. A ! i \<and> B ! (B_start + i)) [0..<n] @ drop n A, n)
      else Inl Out_Of_Bounds)"

text \<open>
  Modelled from the spec: \<^verbatim>\<open>array_vs_bitmap_intersection\<close>, whose body is missing. "Iterate
  the array, retain each element x iff x < bitmap-length and bit x is set." The routine is
  given no start position for the array: it reads the array from position 0.
\<close>

definition array_vs_bitmap_intersection ::
    "int_vector \<Rightarrow> nat \<Rightarrow> bool list \<Rightarrow> nat \<Rightarrow> nat \<Rightarrow> error + (int_vector \<times> nat)" where
  "array_vs_bitmap_intersection iv iv_size bv bv_start bv_size =
     (if iv_size \<le> length (elems iv) \<and> bv_start + bv_size \<le> length bv then
        (let kept = filter (\<lambda>x. x < bv_size \<and> bv ! (bv_start + x)) (take iv_size (elems iv))
         in Inr (iv\<lparr>elems := kept @ drop (length kept) (elems iv)\<rparr>, length kept))
      else Inl Out_Of_Bounds)"

text \<open>
  Modelled from the spec: \<^verbatim>\<open>array_vs_array_intersection\<close>, whose body is missing. "Linear
  merge of two sorted sequences."
\<close>

fun merge_intersect :: "nat list \<Rightarrow> nat list \<Rightarrow> nat list" where
  "merge_intersect [] ys = []"
| "merge_intersect xs [] = []"
| "merge_intersect (x # xs) (y # ys) =
     (if x < y then merge_intersect xs (y # ys)
      else if y < x then merge_intersect (x # xs) ys
      else x # merge_intersect xs ys)"

definition array_vs_array_intersection ::
    "int_vector \<Rightarrow> nat \<Rightarrow> int_vector \<Rightarrow> nat \<Rightarrow> nat \<Rightarrow> error + (int_vector \<times> nat)" where
  "array_vs_array_intersection A A_len B B_start B_len =
     (if A_len \<le> length (elems A) \<and> B_start + B_len \<le> length (elems B) then
        (let kept = merge_intersect (take A_len (elems A)) (take B_len (drop B_start (elems B)))
         in Inr (A\<lparr>elems := kept @ drop (length kept) (elems A)\<rparr>, length kept))
      else Inl Out_Of_Bounds)"

text \<open>
  \<^verbatim>\<open>Color_Set::intersection(const Color_Set_View& other)\<close>, from the source. Where this set
  is a bitmap and the other an array, the source copies the whole vector that the view
  points into and intersects its first \<^verbatim>\<open>other.length\<close> elements with the bitmap;
  \<^verbatim>\<open>other.start\<close> is not used.
\<close>

definition Color_Set_intersection :: "colorset \<Rightarrow> colorset \<Rightarrow> error + colorset" where
  "Color_Set_intersection this other =
     (case (data_ptr this, data_ptr other) of
        (Bitmap A, Bitmap B) \<Rightarrow>
          (case bitmap_vs_bitmap_intersection A (len this) B (start other) (len other) of
             Inl e \<Rightarrow> Inl e
           | Inr (A', n) \<Rightarrow> Inr (this\<lparr>data_ptr := Bitmap A', len := n\<rparr>))
      | (Array iv, Bitmap B) \<Rightarrow>
          (case array_vs_bitmap_intersection iv (len this) B (start other) (len other) of
             Inl e \<Rightarrow> Inl e
           | Inr (iv', n) \<Rightarrow> Inr (this\<lparr>data_ptr := Array iv', len := n\<rparr>))
      | (Bitmap A, Array iv) \<Rightarrow>
          (case array_vs_bitmap_intersection iv (len other) A (start this) (len this) of
             Inl e \<Rightarrow> Inl e
           | Inr (iv_copy, iv_copy_length) \<Rightarrow>
               Inr (this\<lparr>data_ptr := Array iv_copy, len := iv_copy_length\<rparr>))
      | (Array A, Array B) \<Rightarrow>
          (case array_vs_array_intersection A (len this) B (start other) (len other) of
             Inl e \<Rightarrow> Inl e
           | Inr (A', n) \<Rightarrow> Inr (this\<lparr>data_ptr := Array A', len := n\<rparr>)))"

text \<open>
  The invariant of a color set: it lies within its vector, and an array holds its colors in
  strictly ascending order (the colors of a bitmap always are).
\<close>

definition well_formed :: "colorset \<Rightarrow> bool" where
  "well_formed cs \<longleftrightarrow> within_vector cs \<and> sorted_wrt (<) (colors_of cs)"

section \<open>The color streams of the index builder\<close>

text \<open>
  The three \<^verbatim>\<open>Metadata_Stream\<close> classes of the build command. \<^verbatim>\<open>next()\<close> returns the
  color as the 8 bytes of an \<^verbatim>\<open>int64_t\<close>; it is a \<open>64 word\<close> here. Each model is the state
  of the object, \<^verbatim>\<open>next()\<close> as a function returning the color and the new state, and
  the colors that the first \<open>n\<close> calls return.
\<close>

text \<open>\<^verbatim>\<open>Unique_For_Each_Sequence_Color_Stream\<close>.\<close>

record seq_color_stream =
  seq_x :: "64 word"
  seq_reverse_complements :: bool
  seq_increment_flag :: bool

definition Unique_For_Each_Sequence_Color_Stream :: "bool \<Rightarrow> seq_color_stream" where
  "Unique_For_Each_Sequence_Color_Stream reverse_complements =
     \<lparr>seq_x = 0, seq_reverse_complements = reverse_complements, seq_increment_flag = False\<rparr>"

definition seq_next :: "seq_color_stream \<Rightarrow> 64 word \<times> seq_color_stream" where
  "seq_next s =
     (seq_x s,
      s\<lparr>seq_x := (if \<not> seq_reverse_complements s \<or> seq_increment_flag s then seq_x s + 1
                  else seq_x s),
        seq_increment_flag := \<not> seq_increment_flag s\<rparr>)"

fun seq_calls :: "nat \<Rightarrow> seq_color_stream \<Rightarrow> 64 word list" where
  "seq_calls 0 s = []"
| "seq_calls (Suc n) s = (case seq_next s of (c, s') \<Rightarrow> c # seq_calls n s')"

text \<open>
  \<^verbatim>\<open>Colorfile_Stream\<close>. A color file is the list of its lines, and \<open>cf_in\<close> holds the lines
  of the open file not yet read; \<^verbatim>\<open>getline\<close> fails at the end of the file. The member \<open>x\<close>
  is not initialised by the constructor: its first value \<open>x0\<close> is arbitrary. The parser
  \<^verbatim>\<open>fast_string_to_int\<close> belongs to a library and is a parameter.
\<close>

record colorfile_stream =
  cf_in :: "string list"
  cf_filenames :: "string list list"
  cf_current_file_idx :: nat
  cf_x :: "64 word"
  cf_reverse_complements :: bool
  cf_rc_flag :: bool

definition Colorfile_Stream ::
    "string list list \<Rightarrow> bool \<Rightarrow> 64 word \<Rightarrow> error + colorfile_stream" where
  "Colorfile_Stream filenames reverse_complements x0 =
     (if length filenames = 0 then Inl (Runtime_Error ''Error: empty color file list'')
      else Inr \<lparr>cf_in = filenames ! 0, cf_filenames = filenames, cf_current_file_idx = 0,
                cf_x = x0, cf_reverse_complements = reverse_complements, cf_rc_flag = False\<rparr>)"

text \<open>
  The loop \<^verbatim>\<open>while(!in->getline(line))\<close> of \<^verbatim>\<open>Colorfile_Stream::next\<close>, which opens the
  next file when the open one is exhausted.
\<close>

function cf_getline :: "colorfile_stream \<Rightarrow> error + (string \<times> colorfile_stream)" where
  "cf_getline s =
     (case cf_in s of
        line # rest \<Rightarrow> Inr (line, s\<lparr>cf_in := rest\<rparr>)
      | [] \<Rightarrow>
          if cf_current_file_idx s + 1 \<ge> length (cf_filenames s) then
            Inl (Runtime_Error ''Error: more colors than sequences.'')
          else
            cf_getline (s\<lparr>cf_current_file_idx := cf_current_file_idx s + 1,
                           cf_in := cf_filenames s ! (cf_current_file_idx s + 1)\<rparr>))"
  by pat_completeness auto
termination
  by (relation "measure (\<lambda>s. length (cf_filenames s) - cf_current_file_idx s)") auto

definition cf_next ::
    "(string \<Rightarrow> 64 word) \<Rightarrow> colorfile_stream \<Rightarrow> error + (64 word \<times> colorfile_stream)" where
  "cf_next fast_string_to_int s =
     (if cf_reverse_complements s \<and> cf_rc_flag s then
        Inr (cf_x s, s\<lparr>cf_rc_flag := \<not> cf_rc_flag s\<rparr>)
      else
        (case cf_getline s of
           Inl e \<Rightarrow> Inl e
         | Inr (line, s') \<Rightarrow>
             Inr (fast_string_to_int line,
                  s'\<lparr>cf_x := fast_string_to_int line, cf_rc_flag := \<not> cf_rc_flag s'\<rparr>)))"

fun cf_calls ::
    "(string \<Rightarrow> 64 word) \<Rightarrow> nat \<Rightarrow> colorfile_stream \<Rightarrow> error + 64 word list" where
  "cf_calls p 0 s = Inr []"
| "cf_calls p (Suc n) s =
     (case cf_next p s of
        Inl e \<Rightarrow> Inl e
      | Inr (c, s') \<Rightarrow> (case cf_calls p n s' of Inl e \<Rightarrow> Inl e | Inr cs \<Rightarrow> Inr (c # cs)))"

text \<open>Every element twice in a row.\<close>

fun twice_each :: "'a list \<Rightarrow> 'a list" where
  "twice_each [] = []"
| "twice_each (c # cs) = c # c # twice_each cs"

text \<open>
  \<^verbatim>\<open>Unique_For_Each_File_Color_Stream\<close>. \<^verbatim>\<open>count_sequences\<close> belongs to a library and is
  a parameter. The loop of \<^verbatim>\<open>next\<close> reads \<^verbatim>\<open>seq_count_in_file[cur_file_idx]\<close> unchecked.
\<close>

record file_color_stream =
  fc_seq_count_in_file :: "nat list"
  fc_cur_file_idx :: nat
  fc_cur_file_seq_idx :: nat
  fc_reverse_complements :: bool

definition Unique_For_Each_File_Color_Stream ::
    "(string \<Rightarrow> nat) \<Rightarrow> string list \<Rightarrow> bool \<Rightarrow> file_color_stream" where
  "Unique_For_Each_File_Color_Stream count_sequences filenames reverse_complements =
     \<lparr>fc_seq_count_in_file =
        map (\<lambda>filename. if reverse_complements then count_sequences filename * 2
                         else count_sequences filename) filenames,
      fc_cur_file_idx = 0, fc_cur_file_seq_idx = 0,
      fc_reverse_complements = reverse_complements\<rparr>"

function fc_skip :: "file_color_stream \<Rightarrow> error + file_color_stream" where
  "fc_skip s =
     (if fc_cur_file_idx s < length (fc_seq_count_in_file s) then
        (if fc_cur_file_seq_idx s \<ge> fc_seq_count_in_file s ! fc_cur_file_idx s then
           fc_skip (s\<lparr>fc_cur_file_idx := fc_cur_file_idx s + 1, fc_cur_file_seq_idx := 0\<rparr>)
         else Inr s)
      else Inl Out_Of_Bounds)"
  by pat_completeness auto
termination
  by (relation "measure (\<lambda>s. length (fc_seq_count_in_file s) - fc_cur_file_idx s)") auto

definition fc_next :: "file_color_stream \<Rightarrow> error + (64 word \<times> file_color_stream)" where
  "fc_next s =
     (case fc_skip s of
        Inl e \<Rightarrow> Inl e
      | Inr s' \<Rightarrow>
          Inr (of_nat (fc_cur_file_idx s'), s'\<lparr>fc_cur_file_seq_idx := fc_cur_file_seq_idx s' + 1\<rparr>))"

fun fc_calls :: "nat \<Rightarrow> file_color_stream \<Rightarrow> error + 64 word list" where
  "fc_calls 0 s = Inr []"
| "fc_calls (Suc n) s =
     (case fc_next s of
        Inl e \<Rightarrow> Inl e
      | Inr (c, s') \<Rightarrow> (case fc_calls n s' of Inl e \<Rightarrow> Inl e | Inr cs \<Rightarrow> Inr (c # cs)))"

text \<open>The colors of the sequences of all files in order: \<open>counts ! i\<close> times the color \<open>i\<close>.\<close>

definition file_colors :: "nat list \<Rightarrow> nat list" where
  "file_colors counts = concat (map (\<lambda>i. replicate (counts ! i) i) [0..<length counts])"

text \<open>
  The lines that a \<^verbatim>\<open>Colorfile_Stream\<close> has not read yet, the colors that it returns from
  a state on with reverse complements, and the colors that a
  \<^verbatim>\<open>Unique_For_Each_File_Color_Stream\<close> returns from a state on.
\<close>

definition pending :: "colorfile_stream \<Rightarrow> string list" where
  "pending s = cf_in s @ concat (drop (cf_current_file_idx s + 1) (cf_filenames s))"

definition expected_rc :: "(string \<Rightarrow> 64 word) \<Rightarrow> colorfile_stream \<Rightarrow> 64 word list" where
  "expected_rc p s = (if cf_rc_flag s then [cf_x s] else []) @ twice_each (map p (pending s))"

definition fc_remaining :: "file_color_stream \<Rightarrow> nat list" where
  "fc_remaining s =
     (if fc_cur_file_idx s < length (fc_seq_count_in_file s) then
        replicate (fc_seq_count_in_file s ! fc_cur_file_idx s - fc_cur_file_seq_idx s)
          (fc_cur_file_idx s) @
        concat (map (\<lambda>i. replicate (fc_seq_count_in_file s ! i) i)
                  [fc_cur_file_idx s + 1..<length (fc_seq_count_in_file s)])
      else [])"

section \<open>The coloring\<close>

text \<open>
  Modelled from the spec: \<^verbatim>\<open>Sparse_Uint_Array\<close>, the map from node ids to color set ids,
  whose source is missing (spec 4.3): a presence bit per node, the values of the present
  nodes, and rank support on the presence bits. \<open>has(node) = present[node]\<close>,
  \<open>get(node) = values[rank1(present, node)]\<close>, and \<open>get\<close> where \<open>has(node)\<close> is false is a
  domain failure.
\<close>

record sparse_uint_array =
  present :: "bool list"
  sua_values :: int_vector

definition Sparse_Uint_Array_has_index :: "sparse_uint_array \<Rightarrow> nat \<Rightarrow> error + bool" where
  "Sparse_Uint_Array_has_index a node = bv_read (present a) node"


text \<open>
  Modelled from the spec: what \<^verbatim>\<open>get_color_set_id\<close> reads of the k-mer index
  (\<^verbatim>\<open>plain_matrix_sbwt_t\<close>, a library): the four indicator bit vectors, the C array, and
  \<^verbatim>\<open>rank(node, X)\<close>, the number of set X-bits strictly before \<open>node\<close> (spec 6). The
  X-successor of a node whose X-bit is set is \<open>C_array[X] + rank(node, X)\<close>.
\<close>

record sbwt_index =
  A_bits :: "bool list"
  C_bits :: "bool list"
  G_bits :: "bool list"
  T_bits :: "bool list"
  C_array :: "nat list"

definition C_array_at :: "sbwt_index \<Rightarrow> nat \<Rightarrow> error + nat" where
  "C_array_at idx k = (if k < length (C_array idx) then Inr (C_array idx ! k) else Inl Out_Of_Bounds)"

definition successor :: "sbwt_index \<Rightarrow> nat \<Rightarrow> bool list \<Rightarrow> nat \<Rightarrow> error + nat" where
  "successor idx k X_bits node =
     (case C_array_at idx k of
        Inl e \<Rightarrow> Inl e
      | Inr c \<Rightarrow> (case rs_rank X_bits node of Inl e \<Rightarrow> Inl e | Inr r \<Rightarrow> Inr (c + r)))"

text \<open>
  The chain of tests in the loop of \<^verbatim>\<open>get_color_set_id\<close>: the successor by the first set
  bit in the order A, C, G, T, and \<open>None\<close> where no bit is set (the branch that throws).
\<close>

definition out_edge :: "sbwt_index \<Rightarrow> nat \<Rightarrow> error + nat option" where
  "out_edge idx node =
     (case bv_read (A_bits idx) node of
        Inl e \<Rightarrow> Inl e
      | Inr a \<Rightarrow>
          if a then map_sum id Some (successor idx 0 (A_bits idx) node)
          else
            (case bv_read (C_bits idx) node of
               Inl e \<Rightarrow> Inl e
             | Inr c \<Rightarrow>
                 if c then map_sum id Some (successor idx 1 (C_bits idx) node)
                 else
                   (case bv_read (G_bits idx) node of
                      Inl e \<Rightarrow> Inl e
                    | Inr g \<Rightarrow>
                        if g then map_sum id Some (successor idx 2 (G_bits idx) node)
                        else
                          (case bv_read (T_bits idx) node of
                             Inl e \<Rightarrow> Inl e
                           | Inr t \<Rightarrow>
                               if t then map_sum id Some (successor idx 3 (T_bits idx) node)
                               else Inr None))))"

text \<open>
  \<^verbatim>\<open>Coloring<colorset_t, colorset_view_t>\<close>: \<open>'s\<close> is the type of its color set storage.
  \<open>index_ptr\<close> is \<open>None\<close> until a constructor or \<^verbatim>\<open>load\<close> sets it.
\<close>

record 's coloring =
  sets :: 's
  node_id_to_color_set_id :: sparse_uint_array
  index_ptr :: "sbwt_index option"
  largest_color_id :: "64 word"
  total_color_set_length :: "64 word"




text \<open>
  \<open>walks_to m idx u v\<close>: following out-edges from \<open>u\<close> through nodes without an entry
  arrives at \<open>v\<close>.
\<close>

inductive walks_to :: "sparse_uint_array \<Rightarrow> sbwt_index \<Rightarrow> nat \<Rightarrow> nat \<Rightarrow> bool"
  for m :: sparse_uint_array and idx :: sbwt_index where
  arrived: "walks_to m idx u u"
| follow: "Sparse_Uint_Array_has_index m u = Inr False \<Longrightarrow> out_edge idx u = Inr (Some w) \<Longrightarrow>
           walks_to m idx w v \<Longrightarrow> walks_to m idx u v"


section \<open>Serialization\<close>

text \<open>
  A stream is the list of the bytes not yet read. \<^verbatim>\<open>sbwt::serialize_string\<close>,
  \<^verbatim>\<open>sbwt::load_string\<close> and the \<^verbatim>\<open>serialize\<close> and \<^verbatim>\<open>load\<close> members of
  \<^verbatim>\<open>sdsl::bit_vector\<close>, \<^verbatim>\<open>sdsl::int_vector<>\<close> and \<^verbatim>\<open>sdsl::rank_support_v5<>\<close> belong to
  libraries: they are the fields of \<open>io_library\<close>. A loader returns the value and the rest of
  the stream, and \<open>None\<close> where it fails. The rank support is loaded against the vector it
  supports (\<^verbatim>\<open>is_bitmap_marks_rs.load(is, &is_bitmap_marks)\<close>) and answers \<open>rs_rank\<close> of that
  vector, so its loader returns the rest of the stream alone.
\<close>

type_synonym byte = "8 word"

record io_library =
  serialize_string :: "string \<Rightarrow> byte list"
  load_string :: "byte list \<Rightarrow> (string \<times> byte list) option"
  bit_vector_serialize :: "bool list \<Rightarrow> byte list"
  bit_vector_load :: "byte list \<Rightarrow> (bool list \<times> byte list) option"
  int_vector_serialize :: "int_vector \<Rightarrow> byte list"
  int_vector_load :: "byte list \<Rightarrow> (int_vector \<times> byte list) option"
  rank_support_serialize :: "bool list \<Rightarrow> byte list"
  rank_support_load :: "byte list \<Rightarrow> byte list option"

text \<open>
  \<^verbatim>\<open>os.write((char*)&x, sizeof(x))\<close> and \<^verbatim>\<open>is.read((char*)&x, sizeof(x))\<close> on an
  \<^verbatim>\<open>int64_t\<close>: the eight bytes of the object, the least significant first (spec 6).
  \<^verbatim>\<open>read\<close> on a stream with fewer than eight bytes left overwrites the first bytes of the
  object with what is left and throws nothing.
\<close>

fun le_bytes :: "nat \<Rightarrow> nat \<Rightarrow> byte list" where
  "le_bytes 0 n = []"
| "le_bytes (Suc k) n = of_nat (n mod 256) # le_bytes k (n div 256)"

fun le_value :: "byte list \<Rightarrow> nat" where
  "le_value [] = 0"
| "le_value (b # bs) = unat b + 256 * le_value bs"

definition write_i64 :: "64 word \<Rightarrow> byte list" where
  "write_i64 x = le_bytes 8 (unat x)"

definition read_i64 :: "64 word \<Rightarrow> byte list \<Rightarrow> 64 word \<times> byte list" where
  "read_i64 x is =
     (let got = take 8 is
      in (of_nat (le_value (got @ drop (length got) (write_i64 x))), drop 8 is))"


definition Color_Set_Storage_load ::
    "io_library \<Rightarrow> byte list \<Rightarrow> color_set_storage \<Rightarrow> error + (color_set_storage \<times> byte list)" where
  "Color_Set_Storage_load lib is st =
     (case bit_vector_load lib is of
        None \<Rightarrow> Inl Stream_Failure
      | Some (bc, is1) \<Rightarrow>
     (case int_vector_load lib is1 of
        None \<Rightarrow> Inl Stream_Failure
      | Some (bs, is2) \<Rightarrow>
     (case int_vector_load lib is2 of
        None \<Rightarrow> Inl Stream_Failure
      | Some (ac, is3) \<Rightarrow>
     (case int_vector_load lib is3 of
        None \<Rightarrow> Inl Stream_Failure
      | Some (ast, is4) \<Rightarrow>
     (case bit_vector_load lib is4 of
        None \<Rightarrow> Inl Stream_Failure
      | Some (marks, is5) \<Rightarrow>
     (case rank_support_load lib is5 of
        None \<Rightarrow> Inl Stream_Failure
      | Some is6 \<Rightarrow>
          Inr (st\<lparr>bitmap_concat := bc, bitmap_starts := bs, arrays_concat := ac,
                  arrays_starts := ast, is_bitmap_marks := marks\<rparr>, is6)))))))"

text \<open>
  Modelled from the spec: \<^verbatim>\<open>Sparse_Uint_Array::serialize\<close> and \<^verbatim>\<open>load\<close>, whose source is
  missing. The map blob is the presence bits, their rank support and the values, in this
  order (spec 6).
\<close>

definition Sparse_Uint_Array_serialize :: "io_library \<Rightarrow> sparse_uint_array \<Rightarrow> byte list" where
  "Sparse_Uint_Array_serialize lib a =
     bit_vector_serialize lib (present a) @
     rank_support_serialize lib (present a) @
     int_vector_serialize lib (sua_values a)"

definition Sparse_Uint_Array_load ::
    "io_library \<Rightarrow> byte list \<Rightarrow> error + (sparse_uint_array \<times> byte list)" where
  "Sparse_Uint_Array_load lib is =
     (case bit_vector_load lib is of
        None \<Rightarrow> Inl Stream_Failure
      | Some (p, is1) \<Rightarrow>
     (case rank_support_load lib is1 of
        None \<Rightarrow> Inl Stream_Failure
      | Some is2 \<Rightarrow>
     (case int_vector_load lib is2 of
        None \<Rightarrow> Inl Stream_Failure
      | Some (v, is3) \<Rightarrow> Inr (\<lparr>present = p, sua_values = v\<rparr>, is3))))"


text \<open>
  \<^verbatim>\<open>Coloring::load\<close>. It sets \<open>index_ptr\<close>, reads the type id and compares it with the
  three known ids in turn; what follows the comparison is \<open>Coloring_load_body\<close>: the
  storage, the map and the two integers.
\<close>

definition Coloring_load_body ::
    "io_library \<Rightarrow> (byte list \<Rightarrow> 's \<Rightarrow> error + ('s \<times> byte list)) \<Rightarrow> byte list \<Rightarrow>
     's coloring \<Rightarrow> error + ('s coloring \<times> byte list)" where
  "Coloring_load_body lib sets_load is c =
     (case sets_load is (sets c) of
        Inl e \<Rightarrow> Inl e
      | Inr (s, is1) \<Rightarrow>
     (case Sparse_Uint_Array_load lib is1 of
        Inl e \<Rightarrow> Inl e
      | Inr (m, is2) \<Rightarrow>
     (case read_i64 (largest_color_id c) is2 of (max_id, is3) \<Rightarrow>
     (case read_i64 (total_color_set_length c) is3 of (len_sum, is4) \<Rightarrow>
        Inr (c\<lparr>sets := s, node_id_to_color_set_id := m, largest_color_id := max_id,
                total_color_set_length := len_sum\<rparr>, is4)))))"

definition Coloring_load ::
    "io_library \<Rightarrow> colorset_t \<Rightarrow> (byte list \<Rightarrow> 's \<Rightarrow> error + ('s \<times> byte list)) \<Rightarrow> byte list \<Rightarrow>
     sbwt_index \<Rightarrow> 's coloring \<Rightarrow> error + ('s coloring \<times> byte list)" where
  "Coloring_load lib T sets_load is index c =
     (case load_string lib is of
        None \<Rightarrow> Inl Stream_Failure
      | Some (type_id, is1) \<Rightarrow>
          if type_id = ''sdsl-hybrid-v4'' then
            (if T \<noteq> Color_Set_t then Inl (WrongTemplateParameterException T)
             else Coloring_load_body lib sets_load is1 (c\<lparr>index_ptr := Some index\<rparr>))
          else if type_id = ''roaring-v0'' then
            (if T \<noteq> Roaring_Color_Set_t then Inl (WrongTemplateParameterException T)
             else Coloring_load_body lib sets_load is1 (c\<lparr>index_ptr := Some index\<rparr>))
          else if type_id = ''bitmagic-v0'' then
            (if T \<noteq> Bit_Magic_Color_Set_t then Inl (WrongTemplateParameterException T)
             else Coloring_load_body lib sets_load is1 (c\<lparr>index_ptr := Some index\<rparr>))
          else Inl (Runtime_Error (''Unknown color set type:'' @ type_id)))"

text \<open>
  The default constructor \<^verbatim>\<open>Coloring() {}\<close>: default members, both integers 0 by their
  initializers, and \<open>index_ptr\<close> not set. \<open>s\<close> is the default storage.
\<close>

definition Coloring_empty :: "'s \<Rightarrow> 's coloring" where
  "Coloring_empty s =
     \<lparr>sets = s, node_id_to_color_set_id = \<lparr>present = [], sua_values = empty_int_vector\<rparr>,
      index_ptr = None, largest_color_id = 0, total_color_set_length = 0\<rparr>"

text \<open>
  \<^verbatim>\<open>load_coloring\<close> (\<^verbatim>\<open>coloring.cpp\<close>). The variant it fills is \<open>any_coloring\<close>; \<open>'r\<close> and
  \<open>'b\<close> are the storages of \<^verbatim>\<open>Roaring_Color_Set\<close> and \<^verbatim>\<open>Bit_Magic_Color_Set\<close>, whose
  classes are missing: their default value and their \<^verbatim>\<open>load\<close> are parameters. Each of the
  three attempts opens the file anew, assigns a default-constructed coloring to the
  variant, loads into it and returns; its handler catches the
  \<^verbatim>\<open>WrongTemplateParameterException\<close> of that instance of the template and nothing else.
\<close>

datatype ('r, 'b) any_coloring =
    Hybrid_Coloring "color_set_storage coloring"
  | Roaring_Coloring "'r coloring"
  | Bit_Magic_Coloring "'b coloring"

definition load_coloring ::
    "io_library \<Rightarrow> (byte list \<Rightarrow> 'r \<Rightarrow> error + ('r \<times> byte list)) \<Rightarrow> 'r \<Rightarrow>
     (byte list \<Rightarrow> 'b \<Rightarrow> error + ('b \<times> byte list)) \<Rightarrow> 'b \<Rightarrow>
     byte list \<Rightarrow> sbwt_index \<Rightarrow> error + ('r, 'b) any_coloring" where
  "load_coloring lib roaring_load roaring_empty bitmagic_load bitmagic_empty file SBWT =
     (case Coloring_load lib Color_Set_t (Color_Set_Storage_load lib) file SBWT
             (Coloring_empty Color_Set_Storage_empty) of
        Inr (c, _) \<Rightarrow> Inr (Hybrid_Coloring c)
      | Inl e1 \<Rightarrow>
          if e1 \<noteq> WrongTemplateParameterException Color_Set_t then Inl e1
          else
            (case Coloring_load lib Roaring_Color_Set_t roaring_load file SBWT
                    (Coloring_empty roaring_empty) of
               Inr (c, _) \<Rightarrow> Inr (Roaring_Coloring c)
             | Inl e2 \<Rightarrow>
                 if e2 \<noteq> WrongTemplateParameterException Roaring_Color_Set_t then Inl e2
                 else
                   (case Coloring_load lib Bit_Magic_Color_Set_t bitmagic_load file SBWT
                           (Coloring_empty bitmagic_empty) of
                      Inr (c, _) \<Rightarrow> Inr (Bit_Magic_Coloring c)
                    | Inl e3 \<Rightarrow>
                        if e3 \<noteq> WrongTemplateParameterException Bit_Magic_Color_Set_t then Inl e3
                        else Inl (Runtime_Error ''Error: could not load color structure.''))))"






section \<open>Notions used to state the properties of serialization\<close>


text \<open>The type id that \<^verbatim>\<open>serialize\<close> writes for a template parameter, and the known ones.\<close>

definition tag_of :: "colorset_t \<Rightarrow> string option" where
  "tag_of T =
     (case T of Color_Set_t \<Rightarrow> Some ''sdsl-hybrid-v4'' | Roaring_Color_Set_t \<Rightarrow> Some ''roaring-v0''
      | Bit_Magic_Color_Set_t \<Rightarrow> Some ''bitmagic-v0'' | Other_Color_Set_t \<Rightarrow> None)"

definition known_type_ids :: "string list" where
  "known_type_ids = [''sdsl-hybrid-v4'', ''roaring-v0'', ''bitmagic-v0'']"

text \<open>
  One library with the property \<open>reads_back\<close>, on which the functions above can be run. It
  is not the format of sdsl: a number is written in unary, a list as its length and its
  elements, a string as the codes of its characters, a bit vector as zeros and ones, an
  integer vector as its width and its elements, and the rank support as nothing.
\<close>

definition unary_bytes :: "nat \<Rightarrow> byte list" where
  "unary_bytes n = replicate n 1 @ [0]"

fun unary_load :: "byte list \<Rightarrow> (nat \<times> byte list) option" where
  "unary_load [] = None"
| "unary_load (b # bs) =
     (if b = 0 then Some (0, bs)
      else (case unary_load bs of None \<Rightarrow> None | Some (n, rest) \<Rightarrow> Some (Suc n, rest)))"

fun counted_load :: "nat \<Rightarrow> byte list \<Rightarrow> (nat list \<times> byte list) option" where
  "counted_load 0 bs = Some ([], bs)"
| "counted_load (Suc k) bs =
     (case unary_load bs of
        None \<Rightarrow> None
      | Some (x, rest) \<Rightarrow>
          (case counted_load k rest of None \<Rightarrow> None | Some (xs, rest') \<Rightarrow> Some (x # xs, rest')))"

definition nats_bytes :: "nat list \<Rightarrow> byte list" where
  "nats_bytes xs = unary_bytes (length xs) @ concat (map unary_bytes xs)"

definition nats_load :: "byte list \<Rightarrow> (nat list \<times> byte list) option" where
  "nats_load bs = (case unary_load bs of None \<Rightarrow> None | Some (k, rest) \<Rightarrow> counted_load k rest)"

definition example_library :: io_library where
  "example_library =
     \<lparr>serialize_string = (\<lambda>s. nats_bytes (map of_char s)),
      load_string = (\<lambda>bs. case nats_load bs of None \<Rightarrow> None
                           | Some (xs, rest) \<Rightarrow> Some (map char_of xs, rest)),
      bit_vector_serialize = (\<lambda>bv. nats_bytes (map (\<lambda>b. if b then 1 else 0) bv)),
      bit_vector_load = (\<lambda>bs. case nats_load bs of None \<Rightarrow> None
                               | Some (xs, rest) \<Rightarrow> Some (map (\<lambda>x. x \<noteq> 0) xs, rest)),
      int_vector_serialize = (\<lambda>iv. nats_bytes (width iv # elems iv)),
      int_vector_load = (\<lambda>bs. case nats_load bs of None \<Rightarrow> None
                               | Some ([], rest) \<Rightarrow> None
                               | Some (w # xs, rest) \<Rightarrow> Some (\<lparr>width = w, elems = xs\<rparr>, rest)),
      rank_support_serialize = (\<lambda>bv. []),
      rank_support_load = (\<lambda>bs. Some bs)\<rparr>"

text \<open>
  A coloring over the storage built from the vectors \<open>[5]\<close> and \<open>[7]\<close>, an index with no
  node, and the file of a default-constructed \<^verbatim>\<open>Coloring<Roaring_Color_Set>\<close> whose
  storage writes nothing.
\<close>

definition example_coloring :: "color_set_storage coloring" where
  "example_coloring =
     \<lparr>sets = \<lparr>bitmap_concat = [], bitmap_starts = \<lparr>width = 1, elems = [0]\<rparr>,
              arrays_concat = \<lparr>width = 3, elems = [5, 7]\<rparr>,
              arrays_starts = \<lparr>width = 2, elems = [0, 1, 2]\<rparr>,
              is_bitmap_marks = [False, False],
              temp_bitmap_concat = [], temp_arrays_concat = [], temp_bitmap_starts = [],
              temp_arrays_starts = [], temp_is_bitmap_marks = []\<rparr>,
      node_id_to_color_set_id = \<lparr>present = [False, True], sua_values = \<lparr>width = 1, elems = [1]\<rparr>\<rparr>,
      index_ptr = None, largest_color_id = 7, total_color_set_length = 2\<rparr>"

definition example_index :: sbwt_index where
  "example_index = \<lparr>A_bits = [], C_bits = [], G_bits = [], T_bits = [], C_array = []\<rparr>"

definition example_roaring_file :: "byte list" where
  "example_roaring_file =
     serialize_string example_library ''roaring-v0'' @
     Sparse_Uint_Array_serialize example_library \<lparr>present = [], sua_values = empty_int_vector\<rparr> @
     write_i64 0 @ write_i64 0"

section \<open>Notions used to state the properties of the storage\<close>

text \<open>
  The vectors that \<^verbatim>\<open>add_set\<close> stores as bitmaps, the bitmaps it makes of them, and the
  vectors it stores as arrays, each in insertion order.
\<close>

definition stored_as_bitmap :: "nat list \<Rightarrow> bool" where
  "stored_as_bitmap V = bitmap_is_chosen (Max (set V)) (length V)"

definition bitmaps_of :: "nat list list \<Rightarrow> bool list list" where
  "bitmaps_of Vs = map (\<lambda>V. make_bitmap (Max (set V)) V) (filter stored_as_bitmap Vs)"

definition arrays_of :: "nat list list \<Rightarrow> nat list list" where
  "arrays_of Vs = filter (\<lambda>V. \<not> stored_as_bitmap V) Vs"

text \<open>
  The positions at which the pieces of a concatenation start, the first piece starting at
  \<open>n\<close>.
\<close>

fun starts_from :: "nat \<Rightarrow> 'a list list \<Rightarrow> nat list" where
  "starts_from n [] = []"
| "starts_from n (x # xs) = n # starts_from (n + length x) xs"

text \<open>\<open>rank1 bv i\<close> is the number of set bits of \<open>bv\<close> before position \<open>i\<close>.\<close>

definition rank1 :: "bool list \<Rightarrow> nat \<Rightarrow> nat" where
  "rank1 bv i = length (filter (\<lambda>b. b) (take i bv))"

text \<open>The final vectors of a storage that the build protocol made of \<open>Vs\<close>.\<close>

definition built_from :: "nat list list \<Rightarrow> color_set_storage \<Rightarrow> bool" where
  "built_from Vs st \<longleftrightarrow>
     is_bitmap_marks st = map stored_as_bitmap Vs \<and>
     bitmap_concat st = concat (bitmaps_of Vs) \<and>
     elems (bitmap_starts st) = starts_from 0 (bitmaps_of Vs) @ [0 + length (concat (bitmaps_of Vs))] \<and>
     elems (arrays_concat st) = concat (arrays_of Vs) \<and>
     elems (arrays_starts st) = starts_from 0 (arrays_of Vs) @ [0 + length (concat (arrays_of Vs))]"

section \<open>The representation rule in the specification's words\<close>


section \<open>Facts about the accessors\<close>

declare bitmap_colors_loop.simps [simp del]
declare array_colors_loop.simps [simp del]
declare contains_scan.simps [simp del]

lemma contains_scan_within:
  assumes "data_ptr cs = Array iv" and "start cs + len cs \<le> length (elems iv)"
  shows "contains_scan cs c i =
         Inr (c \<in> set (drop i (take (len cs) (drop (start cs) (elems iv)))))"
  using assms
proof (induction cs c i rule: contains_scan.induct)
  case (1 cs color i)
  show ?case
  proof (cases "i < len cs")
    case False
    then show ?thesis by (simp add: contains_scan.simps [of cs color i])
  next
    case True
    let ?xs = "take (len cs) (drop (start cs) (elems iv))"
    have l: "length ?xs = len cs" using "1.prems" by simp
    have acc: "colorset_access_array cs i = Inr (?xs ! i)"
      using True "1.prems" by (simp add: colorset_access_array_def iv_read_def)
    have d: "drop i ?xs = ?xs ! i # drop (i + 1) ?xs"
      using True l by (metis Cons_nth_drop_Suc Suc_eq_plus1)
    show ?thesis
    proof (cases "?xs ! i = color")
      case True
      with acc d \<open>i < len cs\<close> show ?thesis
        by (simp add: contains_scan.simps [of cs color i])
    next
      case False
      with acc \<open>i < len cs\<close> have "contains_scan cs color i = contains_scan cs color (i + 1)"
        by (simp add: contains_scan.simps [of cs color i])
      also have "\<dots> = Inr (color \<in> set (drop (i + 1) ?xs))"
        using "1.IH" [OF \<open>i < len cs\<close> acc False "1.prems"] .
      finally show ?thesis using d False by simp
    qed
  qed
qed

lemma colorset_contains_within:
  assumes "within_vector cs"
  shows "colorset_contains cs c = Inr (c \<in> set (colors_of cs))"
proof (cases "data_ptr cs")
  case (Bitmap bv)
  then show ?thesis
    using assms
    by (auto simp: colorset_contains_def colorset_is_bitmap_def colorset_access_bitmap_def
        bv_read_def within_vector_def data_size_def colors_of_def)
next
  case (Array iv)
  then show ?thesis
    using assms contains_scan_within [of cs iv c 0]
    by (simp add: colorset_contains_def colorset_is_bitmap_def within_vector_def data_size_def
        colors_of_def)
qed

section \<open>Membership is total and guarded\<close>

text \<open>
  Claim C10. On a bitmap, \<^verbatim>\<open>contains(c)\<close> with \<open>c\<close> at or past the bitmap length
  returns false before any access to the bit vector, whatever the vector holds. For a
  color set within its vector, bitmap or array, \<^verbatim>\<open>contains\<close> returns a boolean for
  every color and never reads outside the vector.
\<close>

theorem contains_total_and_guarded:
  "(colorset_is_bitmap cs \<and> len cs \<le> c \<longrightarrow> colorset_contains cs c = Inr False) \<and>
   (within_vector cs \<longrightarrow> (\<exists>b. colorset_contains cs c = Inr b))"
proof (intro conjI impI)
  assume "colorset_is_bitmap cs \<and> len cs \<le> c"
  then show "colorset_contains cs c = Inr False"
    by (simp add: colorset_contains_def)
next
  assume "within_vector cs"
  then show "\<exists>b. colorset_contains cs c = Inr b"
    by (simp add: colorset_contains_within)
qed

theorem contains_total_and_guarded_witness:
  "colorset_is_bitmap \<lparr>data_ptr = Bitmap [True, False, True], start = 0, len = 3\<rparr> \<and>
   len \<lparr>data_ptr = Bitmap [True, False, True], start = 0, len = 3\<rparr> \<le> 7 \<and>
   colorset_contains \<lparr>data_ptr = Bitmap [True, False, True], start = 0, len = 3\<rparr> 7 = Inr False \<and>
   within_vector \<lparr>data_ptr = Bitmap [True, False, True], start = 0, len = 3\<rparr> \<and>
   (\<exists>b. colorset_contains \<lparr>data_ptr = Bitmap [True, False, True], start = 0, len = 3\<rparr> 7 = Inr b)"
  using contains_total_and_guarded
    [of "\<lparr>data_ptr = Bitmap [True, False, True], start = 0, len = 3\<rparr>" 7]
  by (auto simp: colorset_is_bitmap_def within_vector_def data_size_def)


section \<open>The representation test and the packing\<close>

lemma max_element_Nil: "max_element [] = Inl Empty_Range"
  by (simp add: max_element_def)

lemma max_element_Max: "v \<noteq> [] \<Longrightarrow> max_element v = Inr (Max (set v))"
  by (cases v) (simp_all add: max_element_def Max.set_eq_fold [symmetric])

lemma bitmap_is_chosen_iff: "bitmap_is_chosen m n \<longleftrightarrow> m \<noteq> 0 \<and> 2 ^ m < m ^ n"
proof (cases "m = 0")
  case True
  then show ?thesis by (simp add: bitmap_is_chosen_def)
next
  case False
  then have pos: "0 < real m" by simp
  have "real m < log 2 (real m) * real n \<longleftrightarrow> real m < log 2 (real m ^ n)"
    using pos by (simp add: log_nat_power mult.commute)
  also have "\<dots> \<longleftrightarrow> 2 powr (real m) < real m ^ n"
    using pos by (subst less_log_iff) simp_all
  also have "\<dots> \<longleftrightarrow> (2::real) ^ m < real m ^ n"
    by (simp add: powr_realpow)
  also have "\<dots> \<longleftrightarrow> real (2 ^ m) < real (m ^ n)"
    by simp
  also have "\<dots> \<longleftrightarrow> (2::nat) ^ m < m ^ n"
    by (rule of_nat_less_iff)
  finally show ?thesis using False by (simp add: bitmap_is_chosen_def)
qed

declare bitmap_is_chosen_iff [code]





lemma to_sdsl_bit_vector_id: "to_sdsl_bit_vector v = v"
  by (simp add: to_sdsl_bit_vector_def map_nth)

lemma less_two_power_bits_needed: "x < 2 ^ bits_needed x"
proof (cases "x = 0")
  case True
  then show ?thesis by simp
next
  case False
  then have "x < 2 ^ floorlog 2 x" using floorlog_bounds [of x 2] by simp
  also have "\<dots> \<le> 2 ^ bits_needed x" by (simp add: bits_needed_def)
  finally show ?thesis .
qed

lemma elems_to_sdsl_int_vector: "elems (to_sdsl_int_vector v) = v"
proof (cases "v = []")
  case True
  then show ?thesis
    by (simp add: to_sdsl_int_vector_def max_element_Nil empty_int_vector_def)
next
  case False
  have "(v ! i) mod 2 ^ bits_needed (Max (set v)) = v ! i" if "i < length v" for i
  proof -
    have "v ! i \<le> Max (set v)" using that by simp
    also have "\<dots> < 2 ^ bits_needed (Max (set v))" by (rule less_two_power_bits_needed)
    finally show ?thesis by simp
  qed
  then have "map (\<lambda>i. (v ! i) mod 2 ^ bits_needed (Max (set v))) [0..<length v] = map (\<lambda>i. v ! i) [0..<length v]"
    by simp
  then show ?thesis using False
    by (simp add: to_sdsl_int_vector_def max_element_Max map_nth)
qed

section \<open>Concatenations and their start positions\<close>

lemma length_starts_from: "length (starts_from n xss) = length xss"
  by (induction xss arbitrary: n) simp_all

lemma nth_starts_sentinel:
  "k \<le> length xss \<Longrightarrow>
   (starts_from n xss @ [n + length (concat xss)]) ! k = n + length (concat (take k xss))"
proof (induction xss arbitrary: n k)
  case Nil
  then show ?case by simp
next
  case (Cons x xss)
  show ?case
  proof (cases k)
    case 0
    then show ?thesis by simp
  next
    case (Suc k')
    then have "k' \<le> length xss" using Cons.prems by simp
    from Cons.IH [OF this, of "n + length x"] Suc show ?thesis
      by (simp add: add.assoc)
  qed
qed



lemma concat_split_at:
  assumes "j < length xss"
  shows "concat xss = concat (take j xss) @ xss ! j @ concat (drop (Suc j) xss)"
proof -
  have "xss = take j xss @ xss ! j # drop (Suc j) xss"
    using assms by (rule id_take_nth_drop)
  then have "concat xss = concat (take j xss @ xss ! j # drop (Suc j) xss)" by simp
  then show ?thesis by simp
qed



lemma concat_piece_within:
  assumes "j < length xss"
  shows "length (concat (take j xss)) + length (xss ! j) \<le> length (concat xss)"
  using arg_cong [OF concat_split_at [OF assms], of length] by simp

lemma concat_take_Suc:
  assumes "j < length xss"
  shows "length (concat (take (Suc j) xss)) = length (concat (take j xss)) + length (xss ! j)"
  using assms by (simp add: take_Suc_conv_app_nth)

lemma filter_nth_rank:
  assumes "i < length xs" and "P (xs ! i)"
  shows "length (filter P (take i xs)) < length (filter P xs)"
    and "filter P xs ! length (filter P (take i xs)) = xs ! i"
proof -
  have "xs = take i xs @ xs ! i # drop (Suc i) xs"
    using assms(1) by (rule id_take_nth_drop)
  then have "filter P xs = filter P (take i xs @ xs ! i # drop (Suc i) xs)" by simp
  then have eq: "filter P xs = filter P (take i xs) @ xs ! i # filter P (drop (Suc i) xs)"
    using assms(2) by simp
  show "length (filter P (take i xs)) < length (filter P xs)"
    using arg_cong [OF eq, of length] by simp
  show "filter P xs ! length (filter P (take i xs)) = xs ! i"
    by (subst eq) (simp add: nth_append)
qed

lemma rank_of_map:
  "length (filter (\<lambda>b. b) (take i (map P xs))) = length (filter P (take i xs))"
  by (simp add: take_map filter_map o_def)

lemma rank0_of_map:
  assumes "i \<le> length xs"
  shows "i - length (filter P (take i xs)) = length (filter (\<lambda>x. \<not> P x) (take i xs))"
proof -
  have "length (filter P (take i xs)) + length (filter (\<lambda>x. \<not> P x) (take i xs)) = length (take i xs)"
    by (rule sum_length_filter_compl)
  then show ?thesis using assms by simp
qed

section \<open>What the build protocol stores\<close>

lemma add_set_Nil: "add_set [] st = Inl Empty_Range"
  by (simp add: add_set_def max_element_Nil)

lemma add_set_nonempty:
  assumes "V \<noteq> []"
  shows "add_set V st =
     Inr (if stored_as_bitmap V then
            st\<lparr>temp_is_bitmap_marks := temp_is_bitmap_marks st @ [True],
               temp_bitmap_starts := temp_bitmap_starts st @ [length (temp_bitmap_concat st)],
               temp_bitmap_concat := temp_bitmap_concat st @ make_bitmap (Max (set V)) V\<rparr>
          else
            st\<lparr>temp_is_bitmap_marks := temp_is_bitmap_marks st @ [False],
               temp_arrays_starts := temp_arrays_starts st @ [length (temp_arrays_concat st)],
               temp_arrays_concat := temp_arrays_concat st @ V\<rparr>)"
  using assms by (simp add: add_set_def max_element_Max stored_as_bitmap_def map_nth)

lemma add_sets_fails: "[] \<in> set Vs \<Longrightarrow> add_sets Vs st = Inl Empty_Range"
proof (induction Vs arbitrary: st)
  case Nil
  then show ?case by simp
next
  case (Cons V Vs)
  show ?case
  proof (cases "V = []")
    case True
    then show ?thesis by (simp add: add_set_Nil)
  next
    case False
    with Cons.prems have "[] \<in> set Vs" by auto
    then show ?thesis using False Cons.IH by (simp add: add_set_nonempty)
  qed
qed

lemma add_sets_temps:
  "[] \<notin> set Vs \<Longrightarrow>
   \<exists>st'. add_sets Vs st = Inr st' \<and>
     temp_is_bitmap_marks st' = temp_is_bitmap_marks st @ map stored_as_bitmap Vs \<and>
     temp_bitmap_concat st' = temp_bitmap_concat st @ concat (bitmaps_of Vs) \<and>
     temp_bitmap_starts st' =
       temp_bitmap_starts st @ starts_from (length (temp_bitmap_concat st)) (bitmaps_of Vs) \<and>
     temp_arrays_concat st' = temp_arrays_concat st @ concat (arrays_of Vs) \<and>
     temp_arrays_starts st' =
       temp_arrays_starts st @ starts_from (length (temp_arrays_concat st)) (arrays_of Vs)"
proof (induction Vs arbitrary: st)
  case Nil
  then show ?case by (simp add: bitmaps_of_def arrays_of_def)
next
  case (Cons V Vs)
  then have V: "V \<noteq> []" and Vs: "[] \<notin> set Vs" by auto
  show ?case
  proof (cases "stored_as_bitmap V")
    case True
    let ?st1 = "st\<lparr>temp_is_bitmap_marks := temp_is_bitmap_marks st @ [True],
               temp_bitmap_starts := temp_bitmap_starts st @ [length (temp_bitmap_concat st)],
               temp_bitmap_concat := temp_bitmap_concat st @ make_bitmap (Max (set V)) V\<rparr>"
    have step: "add_sets (V # Vs) st = add_sets Vs ?st1"
      using V True by (simp add: add_set_nonempty)
    from Cons.IH [OF Vs, of ?st1] obtain st' where
      "add_sets Vs ?st1 = Inr st'"
      "temp_is_bitmap_marks st' = temp_is_bitmap_marks ?st1 @ map stored_as_bitmap Vs"
      "temp_bitmap_concat st' = temp_bitmap_concat ?st1 @ concat (bitmaps_of Vs)"
      "temp_bitmap_starts st' =
         temp_bitmap_starts ?st1 @ starts_from (length (temp_bitmap_concat ?st1)) (bitmaps_of Vs)"
      "temp_arrays_concat st' = temp_arrays_concat ?st1 @ concat (arrays_of Vs)"
      "temp_arrays_starts st' =
         temp_arrays_starts ?st1 @ starts_from (length (temp_arrays_concat ?st1)) (arrays_of Vs)"
      by blast
    then show ?thesis using True step
      by (simp add: bitmaps_of_def arrays_of_def)
  next
    case False
    let ?st1 = "st\<lparr>temp_is_bitmap_marks := temp_is_bitmap_marks st @ [False],
               temp_arrays_starts := temp_arrays_starts st @ [length (temp_arrays_concat st)],
               temp_arrays_concat := temp_arrays_concat st @ V\<rparr>"
    have step: "add_sets (V # Vs) st = add_sets Vs ?st1"
      using V False by (simp add: add_set_nonempty)
    from Cons.IH [OF Vs, of ?st1] obtain st' where
      "add_sets Vs ?st1 = Inr st'"
      "temp_is_bitmap_marks st' = temp_is_bitmap_marks ?st1 @ map stored_as_bitmap Vs"
      "temp_bitmap_concat st' = temp_bitmap_concat ?st1 @ concat (bitmaps_of Vs)"
      "temp_bitmap_starts st' =
         temp_bitmap_starts ?st1 @ starts_from (length (temp_bitmap_concat ?st1)) (bitmaps_of Vs)"
      "temp_arrays_concat st' = temp_arrays_concat ?st1 @ concat (arrays_of Vs)"
      "temp_arrays_starts st' =
         temp_arrays_starts ?st1 @ starts_from (length (temp_arrays_concat ?st1)) (arrays_of Vs)"
      by blast
    then show ?thesis using False step
      by (simp add: bitmaps_of_def arrays_of_def)
  qed
qed

lemma build_storage_succeeds:
  assumes "[] \<notin> set Vs"
  shows "\<exists>st. build_storage Vs = Inr st \<and> built_from Vs st"
proof -
  from add_sets_temps [OF assms, of Color_Set_Storage_empty] obtain st' where
    st': "add_sets Vs Color_Set_Storage_empty = Inr st'"
      "temp_is_bitmap_marks st' = map stored_as_bitmap Vs"
      "temp_bitmap_concat st' = concat (bitmaps_of Vs)"
      "temp_bitmap_starts st' = starts_from 0 (bitmaps_of Vs)"
      "temp_arrays_concat st' = concat (arrays_of Vs)"
      "temp_arrays_starts st' = starts_from 0 (arrays_of Vs)"
    by (auto simp: Color_Set_Storage_empty_def)
  have "build_storage Vs = Inr (prepare_for_queries st')"
    using st'(1) by (simp add: build_storage_def)
  moreover have "built_from Vs (prepare_for_queries st')"
    using st'(2-) by (simp add: built_from_def prepare_for_queries_def Let_def
        elems_to_sdsl_int_vector to_sdsl_bit_vector_id)
  ultimately show ?thesis by blast
qed

lemma build_storage_fails: "[] \<in> set Vs \<Longrightarrow> build_storage Vs = Inl Empty_Range"
  by (simp add: build_storage_def add_sets_fails)

lemma build_storage_Inr:
  assumes "build_storage Vs = Inr st"
  shows "[] \<notin> set Vs" and "built_from Vs st"
proof -
  show ne: "[] \<notin> set Vs"
    using assms build_storage_fails [of Vs] by auto
  from build_storage_succeeds [OF ne] assms show "built_from Vs st" by auto
qed

section \<open>Lookup in a built storage\<close>

lemma get_color_set_by_id_in_range:
  assumes "i < length (is_bitmap_marks st)"
  shows "is_bitmap_marks st ! i \<Longrightarrow>
           rank1 (is_bitmap_marks st) i + 1 < length (elems (bitmap_starts st)) \<Longrightarrow>
           get_color_set_by_id st i =
             Inr \<lparr>data_ptr = Bitmap (bitmap_concat st),
                  start = elems (bitmap_starts st) ! rank1 (is_bitmap_marks st) i,
                  len = elems (bitmap_starts st) ! (rank1 (is_bitmap_marks st) i + 1) -
                        elems (bitmap_starts st) ! rank1 (is_bitmap_marks st) i\<rparr>"
    and "\<not> is_bitmap_marks st ! i \<Longrightarrow>
           i - rank1 (is_bitmap_marks st) i + 1 < length (elems (arrays_starts st)) \<Longrightarrow>
           get_color_set_by_id st i =
             Inr \<lparr>data_ptr = Array (arrays_concat st),
                  start = elems (arrays_starts st) ! (i - rank1 (is_bitmap_marks st) i),
                  len = elems (arrays_starts st) ! (i - rank1 (is_bitmap_marks st) i + 1) -
                        elems (arrays_starts st) ! (i - rank1 (is_bitmap_marks st) i)\<rparr>"
  using assms
  by (simp_all add: get_color_set_by_id_def bv_read_def rs_rank_def iv_read_def rank1_def)

lemma built_bitmap_index:
  assumes "i < length Vs" and "stored_as_bitmap (Vs ! i)"
  shows "length (filter stored_as_bitmap (take i Vs)) < length (bitmaps_of Vs)"
    and "bitmaps_of Vs ! length (filter stored_as_bitmap (take i Vs)) =
         make_bitmap (Max (set (Vs ! i))) (Vs ! i)"
  using filter_nth_rank [of i Vs stored_as_bitmap, OF assms]
  by (simp_all add: bitmaps_of_def)

lemma built_array_index:
  assumes "i < length Vs" and "\<not> stored_as_bitmap (Vs ! i)"
  shows "length (filter (\<lambda>V. \<not> stored_as_bitmap V) (take i Vs)) < length (arrays_of Vs)"
    and "arrays_of Vs ! length (filter (\<lambda>V. \<not> stored_as_bitmap V) (take i Vs)) = Vs ! i"
  using filter_nth_rank [of i Vs "\<lambda>V. \<not> stored_as_bitmap V", OF assms]
  by (simp_all add: arrays_of_def)

lemma built_rank:
  assumes "built_from Vs st" and "i \<le> length Vs"
  shows "rank1 (is_bitmap_marks st) i = length (filter stored_as_bitmap (take i Vs))"
    and "i - rank1 (is_bitmap_marks st) i = length (filter (\<lambda>V. \<not> stored_as_bitmap V) (take i Vs))"
proof -
  show r: "rank1 (is_bitmap_marks st) i = length (filter stored_as_bitmap (take i Vs))"
    using assms(1) by (simp add: built_from_def rank1_def rank_of_map)
  show "i - rank1 (is_bitmap_marks st) i = length (filter (\<lambda>V. \<not> stored_as_bitmap V) (take i Vs))"
    unfolding r using assms(2) by (rule rank0_of_map)
qed

lemma built_starts_nth:
  assumes "j < length xss"
  shows "(starts_from 0 xss @ [0 + length (concat xss)]) ! j = length (concat (take j xss))"
    and "(starts_from 0 xss @ [0 + length (concat xss)]) ! (j + 1) =
         length (concat (take j xss)) + length (xss ! j)"
    and "j + 1 < length (starts_from 0 xss @ [0 + length (concat xss)])"
proof -
  show "(starts_from 0 xss @ [0 + length (concat xss)]) ! j = length (concat (take j xss))"
    using nth_starts_sentinel [of j xss 0] assms by simp
  show "(starts_from 0 xss @ [0 + length (concat xss)]) ! (j + 1) =
         length (concat (take j xss)) + length (xss ! j)"
    using nth_starts_sentinel [of "j + 1" xss 0] assms concat_take_Suc [OF assms] by simp
  show "j + 1 < length (starts_from 0 xss @ [0 + length (concat xss)])"
    using assms by (simp add: length_starts_from)
qed






text \<open>A storage built of three vectors, two stored as bitmaps and one as an array.\<close>

lemma example_build:
  "build_storage [[0, 1, 2], [7], [1, 2, 3]] =
     Inr \<lparr>bitmap_concat = [True, True, True, False, True, True, True],
          bitmap_starts = \<lparr>width = 3, elems = [0, 3, 7]\<rparr>,
          arrays_concat = \<lparr>width = 3, elems = [7]\<rparr>,
          arrays_starts = \<lparr>width = 1, elems = [0, 1]\<rparr>,
          is_bitmap_marks = [True, False, True],
          temp_bitmap_concat = [], temp_arrays_concat = [], temp_bitmap_starts = [],
          temp_arrays_starts = [], temp_is_bitmap_marks = []\<rparr>"
  by code_simp







text \<open>
  Claim C7. For a set id \<open>i\<close> below the number of stored sets: when \<open>is_bitmap_marks ! i\<close>
  is set, \<^verbatim>\<open>get_color_set_by_id(i)\<close> is the view over \<open>bitmap_concat\<close> from
  \<open>bitmap_starts ! j\<close> up to \<open>bitmap_starts ! (j + 1)\<close> with \<open>j = rank1 is_bitmap_marks i\<close>;
  when it is clear, it is the view over \<open>arrays_concat\<close> from \<open>arrays_starts ! j\<close> up to
  \<open>arrays_starts ! (j + 1)\<close> with \<open>j = i - rank1 is_bitmap_marks i\<close>. In a storage that the
  build protocol made, both entries exist for every stored id, the span is not negative and
  it ends inside the concatenation.
\<close>

theorem lookup_by_rank:
  "(i < length (is_bitmap_marks st) \<longrightarrow>
      (is_bitmap_marks st ! i \<and> rank1 (is_bitmap_marks st) i + 1 < length (elems (bitmap_starts st)) \<longrightarrow>
         get_color_set_by_id st i =
           Inr \<lparr>data_ptr = Bitmap (bitmap_concat st),
                start = elems (bitmap_starts st) ! rank1 (is_bitmap_marks st) i,
                len = elems (bitmap_starts st) ! (rank1 (is_bitmap_marks st) i + 1) -
                      elems (bitmap_starts st) ! rank1 (is_bitmap_marks st) i\<rparr>) \<and>
      (\<not> is_bitmap_marks st ! i \<and>
         i - rank1 (is_bitmap_marks st) i + 1 < length (elems (arrays_starts st)) \<longrightarrow>
         get_color_set_by_id st i =
           Inr \<lparr>data_ptr = Array (arrays_concat st),
                start = elems (arrays_starts st) ! (i - rank1 (is_bitmap_marks st) i),
                len = elems (arrays_starts st) ! (i - rank1 (is_bitmap_marks st) i + 1) -
                      elems (arrays_starts st) ! (i - rank1 (is_bitmap_marks st) i)\<rparr>)) \<and>
   (build_storage Vs = Inr st \<and> i < length Vs \<longrightarrow>
      i < length (is_bitmap_marks st) \<and>
      (is_bitmap_marks st ! i \<longrightarrow>
         rank1 (is_bitmap_marks st) i + 1 < length (elems (bitmap_starts st)) \<and>
         elems (bitmap_starts st) ! rank1 (is_bitmap_marks st) i
           \<le> elems (bitmap_starts st) ! (rank1 (is_bitmap_marks st) i + 1) \<and>
         elems (bitmap_starts st) ! (rank1 (is_bitmap_marks st) i + 1) \<le> length (bitmap_concat st)) \<and>
      (\<not> is_bitmap_marks st ! i \<longrightarrow>
         i - rank1 (is_bitmap_marks st) i + 1 < length (elems (arrays_starts st)) \<and>
         elems (arrays_starts st) ! (i - rank1 (is_bitmap_marks st) i)
           \<le> elems (arrays_starts st) ! (i - rank1 (is_bitmap_marks st) i + 1) \<and>
         elems (arrays_starts st) ! (i - rank1 (is_bitmap_marks st) i + 1)
           \<le> length (elems (arrays_concat st))))"
proof (intro conjI impI)
  assume "i < length (is_bitmap_marks st)"
    and "is_bitmap_marks st ! i \<and> rank1 (is_bitmap_marks st) i + 1 < length (elems (bitmap_starts st))"
  then show "get_color_set_by_id st i =
           Inr \<lparr>data_ptr = Bitmap (bitmap_concat st),
                start = elems (bitmap_starts st) ! rank1 (is_bitmap_marks st) i,
                len = elems (bitmap_starts st) ! (rank1 (is_bitmap_marks st) i + 1) -
                      elems (bitmap_starts st) ! rank1 (is_bitmap_marks st) i\<rparr>"
    using get_color_set_by_id_in_range(1) [of i st] by simp
next
  assume "i < length (is_bitmap_marks st)"
    and "\<not> is_bitmap_marks st ! i \<and>
         i - rank1 (is_bitmap_marks st) i + 1 < length (elems (arrays_starts st))"
  then show "get_color_set_by_id st i =
           Inr \<lparr>data_ptr = Array (arrays_concat st),
                start = elems (arrays_starts st) ! (i - rank1 (is_bitmap_marks st) i),
                len = elems (arrays_starts st) ! (i - rank1 (is_bitmap_marks st) i + 1) -
                      elems (arrays_starts st) ! (i - rank1 (is_bitmap_marks st) i)\<rparr>"
    using get_color_set_by_id_in_range(2) [of i st] by simp
next
  assume a: "build_storage Vs = Inr st \<and> i < length Vs"
  then have built: "built_from Vs st" and i: "i < length Vs"
    using build_storage_Inr(2) by simp_all
  show "i < length (is_bitmap_marks st)"
    using built i by (simp add: built_from_def)
  have marks: "is_bitmap_marks st ! i = stored_as_bitmap (Vs ! i)"
    using built i by (simp add: built_from_def)
  {
    assume m: "is_bitmap_marks st ! i"
    let ?j = "rank1 (is_bitmap_marks st) i"
    have j: "?j < length (bitmaps_of Vs)"
      using built_bitmap_index(1) [OF i] m marks built_rank(1) [OF built, of i] i by simp
    have starts: "elems (bitmap_starts st) =
        starts_from 0 (bitmaps_of Vs) @ [0 + length (concat (bitmaps_of Vs))]"
      and cc: "bitmap_concat st = concat (bitmaps_of Vs)"
      using built by (simp_all add: built_from_def)
    show "?j + 1 < length (elems (bitmap_starts st))"
      using built_starts_nth(3) [OF j] by (simp add: starts)
    show "elems (bitmap_starts st) ! ?j \<le> elems (bitmap_starts st) ! (?j + 1)"
      using built_starts_nth(1,2) [OF j] by (simp add: starts)
    show "elems (bitmap_starts st) ! (?j + 1) \<le> length (bitmap_concat st)"
      using built_starts_nth(2) [OF j] concat_piece_within [OF j] by (simp add: starts cc)
  }
  {
    assume m: "\<not> is_bitmap_marks st ! i"
    let ?j = "i - rank1 (is_bitmap_marks st) i"
    have j: "?j < length (arrays_of Vs)"
      using built_array_index(1) [OF i] m marks built_rank(2) [OF built, of i] i by simp
    have starts: "elems (arrays_starts st) =
        starts_from 0 (arrays_of Vs) @ [0 + length (concat (arrays_of Vs))]"
      and cc: "elems (arrays_concat st) = concat (arrays_of Vs)"
      using built by (simp_all add: built_from_def)
    show "?j + 1 < length (elems (arrays_starts st))"
      using built_starts_nth(3) [OF j] by (simp add: starts)
    show "elems (arrays_starts st) ! ?j \<le> elems (arrays_starts st) ! (?j + 1)"
      using built_starts_nth(1,2) [OF j] by (simp add: starts)
    show "elems (arrays_starts st) ! (?j + 1) \<le> length (elems (arrays_concat st))"
      using built_starts_nth(2) [OF j] concat_piece_within [OF j] by (simp add: starts cc)
  }
qed

theorem lookup_by_rank_witness:
  "build_storage [[0, 1, 2], [7], [1, 2, 3]] =
     Inr \<lparr>bitmap_concat = [True, True, True, False, True, True, True],
          bitmap_starts = \<lparr>width = 3, elems = [0, 3, 7]\<rparr>,
          arrays_concat = \<lparr>width = 3, elems = [7]\<rparr>,
          arrays_starts = \<lparr>width = 1, elems = [0, 1]\<rparr>,
          is_bitmap_marks = [True, False, True],
          temp_bitmap_concat = [], temp_arrays_concat = [], temp_bitmap_starts = [],
          temp_arrays_starts = [], temp_is_bitmap_marks = []\<rparr> \<and>
   rank1 [True, False, True] 2 = 1 \<and>
   get_color_set_by_id
     \<lparr>bitmap_concat = [True, True, True, False, True, True, True],
      bitmap_starts = \<lparr>width = 3, elems = [0, 3, 7]\<rparr>,
      arrays_concat = \<lparr>width = 3, elems = [7]\<rparr>,
      arrays_starts = \<lparr>width = 1, elems = [0, 1]\<rparr>,
      is_bitmap_marks = [True, False, True],
      temp_bitmap_concat = [], temp_arrays_concat = [], temp_bitmap_starts = [],
      temp_arrays_starts = [], temp_is_bitmap_marks = []\<rparr> 2 =
     Inr \<lparr>data_ptr = Bitmap [True, True, True, False, True, True, True], start = 3, len = 7 - 3\<rparr> \<and>
   rank1 [True, False, True] 1 = 1 \<and>
   get_color_set_by_id
     \<lparr>bitmap_concat = [True, True, True, False, True, True, True],
      bitmap_starts = \<lparr>width = 3, elems = [0, 3, 7]\<rparr>,
      arrays_concat = \<lparr>width = 3, elems = [7]\<rparr>,
      arrays_starts = \<lparr>width = 1, elems = [0, 1]\<rparr>,
      is_bitmap_marks = [True, False, True],
      temp_bitmap_concat = [], temp_arrays_concat = [], temp_bitmap_starts = [],
      temp_arrays_starts = [], temp_is_bitmap_marks = []\<rparr> 1 =
     Inr \<lparr>data_ptr = Array \<lparr>width = 3, elems = [7]\<rparr>, start = 0, len = 1 - 0\<rparr>"
proof -
  let ?Vs = "[[0, 1, 2], [7], [1, 2, 3::nat]]"
  let ?st = "\<lparr>bitmap_concat = [True, True, True, False, True, True, True],
              bitmap_starts = \<lparr>width = 3, elems = [0, 3, 7]\<rparr>,
              arrays_concat = \<lparr>width = 3, elems = [7]\<rparr>,
              arrays_starts = \<lparr>width = 1, elems = [0, 1]\<rparr>,
              is_bitmap_marks = [True, False, True],
              temp_bitmap_concat = [], temp_arrays_concat = [], temp_bitmap_starts = [],
              temp_arrays_starts = [], temp_is_bitmap_marks = []\<rparr>"
  have r2: "rank1 [True, False, True] 2 = 1" and r1: "rank1 [True, False, True] 1 = 1"
    by code_simp+
  have p2: "2 < length (is_bitmap_marks ?st)"
    "is_bitmap_marks ?st ! 2 \<and> rank1 (is_bitmap_marks ?st) 2 + 1 < length (elems (bitmap_starts ?st))"
    by code_simp+
  have p1: "1 < length (is_bitmap_marks ?st)"
    "\<not> is_bitmap_marks ?st ! 1 \<and>
     1 - rank1 (is_bitmap_marks ?st) 1 + 1 < length (elems (arrays_starts ?st))"
    by code_simp+
  have e2: "elems (bitmap_starts ?st) ! rank1 (is_bitmap_marks ?st) 2 = 3"
    "elems (bitmap_starts ?st) ! (rank1 (is_bitmap_marks ?st) 2 + 1) = 7"
    and e1: "elems (arrays_starts ?st) ! (1 - rank1 (is_bitmap_marks ?st) 1) = 0"
    "elems (arrays_starts ?st) ! (1 - rank1 (is_bitmap_marks ?st) 1 + 1) = 1"
    by code_simp+
  have g2: "get_color_set_by_id ?st 2 =
        Inr \<lparr>data_ptr = Bitmap (bitmap_concat ?st),
             start = elems (bitmap_starts ?st) ! rank1 (is_bitmap_marks ?st) 2,
             len = elems (bitmap_starts ?st) ! (rank1 (is_bitmap_marks ?st) 2 + 1) -
                   elems (bitmap_starts ?st) ! rank1 (is_bitmap_marks ?st) 2\<rparr>"
    using lookup_by_rank [of 2 ?st ?Vs] p2 by blast
  have g1: "get_color_set_by_id ?st 1 =
        Inr \<lparr>data_ptr = Array (arrays_concat ?st),
             start = elems (arrays_starts ?st) ! (1 - rank1 (is_bitmap_marks ?st) 1),
             len = elems (arrays_starts ?st) ! (1 - rank1 (is_bitmap_marks ?st) 1 + 1) -
                   elems (arrays_starts ?st) ! (1 - rank1 (is_bitmap_marks ?st) 1)\<rparr>"
    using lookup_by_rank [of 1 ?st ?Vs] p1 by blast
  have f: "bitmap_concat ?st = [True, True, True, False, True, True, True]"
    "arrays_concat ?st = \<lparr>width = 3, elems = [7]\<rparr>"
    by simp_all
  show ?thesis
    using example_build r2 r1 g2 [unfolded e2 f] g1 [unfolded e1 f] by (intro conjI)
qed


section \<open>The representation that the constructor and the storage choose\<close>






section \<open>Reading a color set back, and intersecting\<close>

lemma bitmap_colors_loop_within:
  assumes "data_ptr cs = Bitmap bv" and "start cs + len cs \<le> length bv"
  shows "bitmap_colors_loop cs i vec =
         Inr (vec @ filter (\<lambda>k. bv ! (start cs + k)) [i..<len cs])"
  using assms
proof (induction cs i vec rule: bitmap_colors_loop.induct)
  case (1 cs i vec)
  show ?case
  proof (cases "i < len cs")
    case False
    then show ?thesis by (simp add: bitmap_colors_loop.simps [of cs i vec])
  next
    case True
    have acc: "colorset_access_bitmap cs i = Inr (bv ! (start cs + i))"
      using True "1.prems" by (simp add: colorset_access_bitmap_def bv_read_def)
    have "bitmap_colors_loop cs i vec =
          bitmap_colors_loop cs (i + 1) (if bv ! (start cs + i) then vec @ [i] else vec)"
      using True acc by (simp add: bitmap_colors_loop.simps [of cs i vec])
    also have "\<dots> = Inr ((if bv ! (start cs + i) then vec @ [i] else vec) @
                       filter (\<lambda>k. bv ! (start cs + k)) [i + 1..<len cs])"
      using "1.IH" [OF True acc "1.prems"] .
    also have "\<dots> = Inr (vec @ filter (\<lambda>k. bv ! (start cs + k)) [i..<len cs])"
      using True by (simp add: upt_conv_Cons)
    finally show ?thesis .
  qed
qed

lemma array_colors_loop_within:
  assumes "data_ptr cs = Array iv" and "start cs + len cs \<le> length (elems iv)"
  shows "array_colors_loop cs i vec =
         Inr (vec @ drop i (take (len cs) (drop (start cs) (elems iv))))"
  using assms
proof (induction cs i vec rule: array_colors_loop.induct)
  case (1 cs i vec)
  show ?case
  proof (cases "i < len cs")
    case False
    then show ?thesis by (simp add: array_colors_loop.simps [of cs i vec])
  next
    case True
    let ?xs = "take (len cs) (drop (start cs) (elems iv))"
    have l: "length ?xs = len cs" using "1.prems" by simp
    have acc: "colorset_access_array cs i = Inr (?xs ! i)"
      using True "1.prems" by (simp add: colorset_access_array_def iv_read_def)
    have d: "drop i ?xs = ?xs ! i # drop (i + 1) ?xs"
      using True l by (metis Cons_nth_drop_Suc Suc_eq_plus1)
    have "array_colors_loop cs i vec = array_colors_loop cs (i + 1) (vec @ [?xs ! i])"
      using True acc by (simp add: array_colors_loop.simps [of cs i vec])
    also have "\<dots> = Inr ((vec @ [?xs ! i]) @ drop (i + 1) ?xs)"
      using "1.IH" [OF True acc "1.prems"] .
    finally show ?thesis using d by simp
  qed
qed

lemma get_colors_as_vector_within:
  assumes "within_vector cs"
  shows "colorset_get_colors_as_vector cs = Inr (colors_of cs)"
proof (cases "data_ptr cs")
  case (Bitmap bv)
  then show ?thesis
    using assms bitmap_colors_loop_within [of cs bv 0 "[]"]
    by (simp add: colorset_get_colors_as_vector_def colorset_is_bitmap_def within_vector_def
        data_size_def colors_of_def)
next
  case (Array iv)
  then show ?thesis
    using assms array_colors_loop_within [of cs iv 0 "[]"]
    by (simp add: colorset_get_colors_as_vector_def colorset_is_bitmap_def within_vector_def
        data_size_def colors_of_def)
qed

lemma merge_intersect_set:
  "sorted_wrt (<) xs \<Longrightarrow> sorted_wrt (<) ys \<Longrightarrow>
   set (merge_intersect xs ys) = set xs \<inter> set ys"
  by (induction xs ys rule: merge_intersect.induct) (auto; force)+

lemma merge_intersect_sorted:
  "sorted_wrt (<) xs \<Longrightarrow> sorted_wrt (<) ys \<Longrightarrow> sorted_wrt (<) (merge_intersect xs ys)"
  by (induction xs ys rule: merge_intersect.induct) (auto simp: merge_intersect_set)

lemma sorted_list_of_set_strict:
  assumes "sorted_wrt (<) (xs :: nat list)"
  shows "sorted_list_of_set (set xs) = xs"
  using assms by (simp add: sorted_list_of_set.idem_if_sorted_distinct strict_sorted_iff)

lemma filter_upt_nth_append:
  "filter (\<lambda>i. (map f [0..<n] @ zs) ! i) [0..<n] = filter f [0..<n]"
  by (rule filter_cong) (simp_all add: nth_append)

lemma intersection_bitmap_bitmap:
  assumes "data_ptr A = Bitmap a" and "data_ptr B = Bitmap b"
    and "within_vector A" and "start A = 0" and "within_vector B"
  shows "\<exists>A'. Color_Set_intersection A B = Inr A' \<and> within_vector A' \<and>
           sorted_wrt (<) (colors_of A') \<and> set (colors_of A') = set (colors_of A) \<inter> set (colors_of B)"
proof -
  let ?n = "min (len A) (len B)"
  let ?f = "\<lambda>i. a ! i \<and> b ! (start B + i)"
  let ?A' = "A\<lparr>data_ptr := Bitmap (map ?f [0..<?n] @ drop ?n a), len := ?n\<rparr>"
  have la: "len A \<le> length a" and lb: "start B + len B \<le> length b"
    using assms by (simp_all add: within_vector_def data_size_def)
  have n: "?n \<le> length a" "start B + ?n \<le> length b"
    using la lb by simp_all
  have run: "Color_Set_intersection A B = Inr ?A'"
    using assms(1,2) n
    by (simp add: Color_Set_intersection_def bitmap_vs_bitmap_intersection_def Let_def)
  have within: "within_vector ?A'"
    using la assms(4) by (simp add: within_vector_def data_size_def)
  have cols: "colors_of ?A' = filter ?f [0..<?n]"
    using assms(4) by (simp add: colors_of_def filter_upt_nth_append)
  have sorted: "sorted_wrt (<) (colors_of ?A')"
    unfolding cols by (rule sorted_wrt_filter) simp
  have "set (colors_of ?A') = set (colors_of A) \<inter> set (colors_of B)"
    unfolding cols using assms(1,2,4) by (auto simp: colors_of_def)
  then show ?thesis using run within sorted by blast
qed

lemma array_vs_bitmap_kept:
  assumes "data_ptr S = Array iv" and "data_ptr T = Bitmap bv"
    and "well_formed S" and "start S = 0" and "within_vector T"
  shows "\<exists>iv' n. array_vs_bitmap_intersection iv (len S) bv (start T) (len T) = Inr (iv', n) \<and>
           n \<le> length (elems iv') \<and>
           sorted_wrt (<) (take n (elems iv')) \<and>
           set (take n (elems iv')) = set (colors_of S) \<inter> set (colors_of T)"
proof -
  let ?kept = "filter (\<lambda>x. x < len T \<and> bv ! (start T + x)) (take (len S) (elems iv))"
  let ?iv' = "iv\<lparr>elems := ?kept @ drop (length ?kept) (elems iv)\<rparr>"
  have ls: "len S \<le> length (elems iv)" and lt: "start T + len T \<le> length bv"
    using assms by (simp_all add: well_formed_def within_vector_def data_size_def)
  have cS: "colors_of S = take (len S) (elems iv)"
    using assms(1,4) by (simp add: colors_of_def)
  have run: "array_vs_bitmap_intersection iv (len S) bv (start T) (len T) = Inr (?iv', length ?kept)"
    using ls lt by (simp add: array_vs_bitmap_intersection_def Let_def)
  have tk: "take (length ?kept) (elems ?iv') = ?kept" by simp
  have srt: "sorted_wrt (<) ?kept"
    using assms(3) cS by (auto simp: well_formed_def intro: sorted_wrt_filter)
  have cT: "colors_of T = filter (\<lambda>i. bv ! (start T + i)) [0..<len T]"
    using assms(2) by (simp add: colors_of_def)
  have "set ?kept = set (colors_of S) \<inter> set (colors_of T)"
    unfolding cS cT by auto
  then show ?thesis using run tk srt
    by (metis (no_types, lifting) length_append le_add1 int_vector.select_convs(2)
        int_vector.surjective int_vector.update_convs(2))
qed

lemma array_result_colors:
  assumes "start A = 0" and "n \<le> length (elems iv')"
  shows "within_vector (A\<lparr>data_ptr := Array iv', len := n\<rparr>)"
    and "colors_of (A\<lparr>data_ptr := Array iv', len := n\<rparr>) = take n (elems iv')"
  using assms by (simp_all add: within_vector_def data_size_def colors_of_def)

lemma intersection_array_bitmap:
  assumes "data_ptr A = Array iv" and "data_ptr B = Bitmap bv"
    and "well_formed A" and "start A = 0" and "within_vector B"
  shows "\<exists>A'. Color_Set_intersection A B = Inr A' \<and> within_vector A' \<and>
           sorted_wrt (<) (colors_of A') \<and> set (colors_of A') = set (colors_of A) \<inter> set (colors_of B)"
proof -
  from array_vs_bitmap_kept [OF assms] obtain iv' n where
    r: "array_vs_bitmap_intersection iv (len A) bv (start B) (len B) = Inr (iv', n)"
    and n: "n \<le> length (elems iv')"
    and s: "sorted_wrt (<) (take n (elems iv'))"
    and e: "set (take n (elems iv')) = set (colors_of A) \<inter> set (colors_of B)"
    by blast
  have "Color_Set_intersection A B = Inr (A\<lparr>data_ptr := Array iv', len := n\<rparr>)"
    using assms(1,2) r by (simp add: Color_Set_intersection_def)
  then show ?thesis
    using array_result_colors [OF assms(4) n] s e by auto
qed

lemma intersection_bitmap_array:
  assumes "data_ptr A = Bitmap bv" and "data_ptr B = Array iv"
    and "within_vector A" and "start A = 0" and "well_formed B" and "start B = 0"
  shows "\<exists>A'. Color_Set_intersection A B = Inr A' \<and> within_vector A' \<and>
           sorted_wrt (<) (colors_of A') \<and> set (colors_of A') = set (colors_of A) \<inter> set (colors_of B)"
proof -
  from array_vs_bitmap_kept [OF assms(2,1,5,6,3)] obtain iv' n where
    r: "array_vs_bitmap_intersection iv (len B) bv (start A) (len A) = Inr (iv', n)"
    and n: "n \<le> length (elems iv')"
    and s: "sorted_wrt (<) (take n (elems iv'))"
    and e: "set (take n (elems iv')) = set (colors_of B) \<inter> set (colors_of A)"
    by blast
  have "Color_Set_intersection A B = Inr (A\<lparr>data_ptr := Array iv', len := n\<rparr>)"
    using assms(1,2) r by (simp add: Color_Set_intersection_def)
  then show ?thesis
    using array_result_colors [OF assms(4) n] s e by auto
qed

lemma intersection_array_array:
  assumes "data_ptr A = Array a" and "data_ptr B = Array b"
    and "well_formed A" and "start A = 0" and "well_formed B"
  shows "\<exists>A'. Color_Set_intersection A B = Inr A' \<and> within_vector A' \<and>
           sorted_wrt (<) (colors_of A') \<and> set (colors_of A') = set (colors_of A) \<inter> set (colors_of B)"
proof -
  let ?kept = "merge_intersect (take (len A) (elems a)) (take (len B) (drop (start B) (elems b)))"
  let ?a' = "a\<lparr>elems := ?kept @ drop (length ?kept) (elems a)\<rparr>"
  have la: "len A \<le> length (elems a)" and lb: "start B + len B \<le> length (elems b)"
    using assms by (simp_all add: well_formed_def within_vector_def data_size_def)
  have cA: "colors_of A = take (len A) (elems a)"
    using assms(1,4) by (simp add: colors_of_def)
  have cB: "colors_of B = take (len B) (drop (start B) (elems b))"
    using assms(2) by (simp add: colors_of_def)
  have sA: "sorted_wrt (<) (take (len A) (elems a))" and sB: "sorted_wrt (<) (take (len B) (drop (start B) (elems b)))"
    using assms(3,5) cA cB by (simp_all add: well_formed_def)
  have run: "Color_Set_intersection A B = Inr (A\<lparr>data_ptr := Array ?a', len := length ?kept\<rparr>)"
    using assms(1,2) la lb
    by (simp add: Color_Set_intersection_def array_vs_array_intersection_def Let_def)
  have n: "length ?kept \<le> length (elems ?a')" by simp
  have tk: "take (length ?kept) (elems ?a') = ?kept" by simp
  have w: "within_vector (A\<lparr>data_ptr := Array ?a', len := length ?kept\<rparr>)"
    by (rule array_result_colors(1) [OF assms(4) n])
  have c: "colors_of (A\<lparr>data_ptr := Array ?a', len := length ?kept\<rparr>) = ?kept"
    using array_result_colors(2) [OF assms(4) n] tk by simp
  show ?thesis
  proof (intro exI conjI)
    show "Color_Set_intersection A B = Inr (A\<lparr>data_ptr := Array ?a', len := length ?kept\<rparr>)"
      by (rule run)
    show "within_vector (A\<lparr>data_ptr := Array ?a', len := length ?kept\<rparr>)"
      by (rule w)
    show "sorted_wrt (<) (colors_of (A\<lparr>data_ptr := Array ?a', len := length ?kept\<rparr>))"
      unfolding c by (rule merge_intersect_sorted [OF sA sB])
    show "set (colors_of (A\<lparr>data_ptr := Array ?a', len := length ?kept\<rparr>)) =
          set (colors_of A) \<inter> set (colors_of B)"
      unfolding c cA cB by (rule merge_intersect_set [OF sA sB])
  qed
qed

text \<open>
  The result of \<^verbatim>\<open>intersection\<close> is right when the set itself starts at position 0 of its
  vector (every \<^verbatim>\<open>Color_Set\<close> does) and, where a bitmap is intersected with an array, the
  array view starts at position 0 too.
\<close>

lemma intersection_from_position_zero:
  assumes "well_formed A" and "start A = 0" and "well_formed B"
    and "colorset_is_bitmap A \<and> \<not> colorset_is_bitmap B \<longrightarrow> start B = 0"
  shows "\<exists>A'. Color_Set_intersection A B = Inr A' \<and>
           colorset_get_colors_as_vector A' =
             Inr (sorted_list_of_set (set (colors_of A) \<inter> set (colors_of B)))"
proof -
  have wA: "within_vector A" and wB: "within_vector B"
    using assms(1,3) by (simp_all add: well_formed_def)
  have "\<exists>A'. Color_Set_intersection A B = Inr A' \<and> within_vector A' \<and>
           sorted_wrt (<) (colors_of A') \<and> set (colors_of A') = set (colors_of A) \<inter> set (colors_of B)"
  proof (cases "data_ptr A")
    case a: (Bitmap a)
    show ?thesis
    proof (cases "data_ptr B")
      case (Bitmap b)
      show ?thesis by (rule intersection_bitmap_bitmap [OF a Bitmap wA assms(2) wB])
    next
      case (Array b)
      have "start B = 0" using assms(4) a Array by (simp add: colorset_is_bitmap_def)
      then show ?thesis by (rule intersection_bitmap_array [OF a Array wA assms(2,3)])
    qed
  next
    case a: (Array a)
    show ?thesis
    proof (cases "data_ptr B")
      case (Bitmap b)
      show ?thesis by (rule intersection_array_bitmap [OF a Bitmap assms(1,2) wB])
    next
      case (Array b)
      show ?thesis by (rule intersection_array_array [OF a Array assms(1,2,3)])
    qed
  qed
  then obtain A' where "Color_Set_intersection A B = Inr A'" "within_vector A'"
    "sorted_wrt (<) (colors_of A')" "set (colors_of A') = set (colors_of A) \<inter> set (colors_of B)"
    by blast
  then show ?thesis
    using get_colors_as_vector_within [of A'] sorted_list_of_set_strict [of "colors_of A'"]
    by auto
qed

text \<open>A storage of two arrays.\<close>

lemma example_two_arrays:
  "build_storage [[5], [7]] =
     Inr \<lparr>bitmap_concat = [], bitmap_starts = \<lparr>width = 1, elems = [0]\<rparr>,
          arrays_concat = \<lparr>width = 3, elems = [5, 7]\<rparr>,
          arrays_starts = \<lparr>width = 2, elems = [0, 1, 2]\<rparr>,
          is_bitmap_marks = [False, False],
          temp_bitmap_concat = [], temp_arrays_concat = [], temp_bitmap_starts = [],
          temp_arrays_starts = [], temp_is_bitmap_marks = []\<rparr>"
  by code_simp

text \<open>
  Claim C3 at a view that does not start at position 0. A bitmap set holding 5, 6 and 7 is
  intersected with the view of the second of two stored arrays, which holds 7 alone. The
  intersection is \<open>{7}\<close>; the set holds 5 afterwards, the first element of the first stored
  array.
\<close>

theorem intersection_drops_view_start:
  "Color_Set_from_vector [5, 6, 7] =
     Inr \<lparr>data_ptr = Bitmap [False, False, False, False, False, True, True, True],
          start = 0, len = 8\<rparr> \<and>
   get_color_set_by_id
     \<lparr>bitmap_concat = [], bitmap_starts = \<lparr>width = 1, elems = [0]\<rparr>,
      arrays_concat = \<lparr>width = 3, elems = [5, 7]\<rparr>,
      arrays_starts = \<lparr>width = 2, elems = [0, 1, 2]\<rparr>,
      is_bitmap_marks = [False, False],
      temp_bitmap_concat = [], temp_arrays_concat = [], temp_bitmap_starts = [],
      temp_arrays_starts = [], temp_is_bitmap_marks = []\<rparr> 1 =
     Inr \<lparr>data_ptr = Array \<lparr>width = 3, elems = [5, 7]\<rparr>, start = 1, len = 1\<rparr> \<and>
   colorset_get_colors_as_vector
     \<lparr>data_ptr = Bitmap [False, False, False, False, False, True, True, True],
      start = 0, len = 8\<rparr> = Inr [5, 6, 7] \<and>
   colorset_get_colors_as_vector
     \<lparr>data_ptr = Array \<lparr>width = 3, elems = [5, 7]\<rparr>, start = 1, len = 1\<rparr> = Inr [7] \<and>
   Color_Set_intersection
     \<lparr>data_ptr = Bitmap [False, False, False, False, False, True, True, True],
      start = 0, len = 8\<rparr>
     \<lparr>data_ptr = Array \<lparr>width = 3, elems = [5, 7]\<rparr>, start = 1, len = 1\<rparr> =
     Inr \<lparr>data_ptr = Array \<lparr>width = 3, elems = [5, 7]\<rparr>, start = 0, len = 1\<rparr> \<and>
   colorset_get_colors_as_vector
     \<lparr>data_ptr = Array \<lparr>width = 3, elems = [5, 7]\<rparr>, start = 0, len = 1\<rparr> = Inr [5]"
proof (intro conjI)
  have "make_bitmap 7 [5, 6, 7] = [False, False, False, False, False, True, True, True]"
    by code_simp
  then show "Color_Set_from_vector [5, 6, 7] =
     Inr \<lparr>data_ptr = Bitmap [False, False, False, False, False, True, True, True],
          start = 0, len = 8\<rparr>"
    by (simp add: Color_Set_from_vector_def max_element_def bitmap_is_chosen_iff)
qed code_simp+


section \<open>What the color streams return\<close>

declare cf_getline.simps [simp del]

lemma seq_calls_rc:
  assumes "seq_reverse_complements s" and "seq_x s = of_nat (k div 2)"
    and "seq_increment_flag s = odd k"
  shows "seq_calls n s = map (\<lambda>j. of_nat (j div 2)) [k..<k + n]"
  using assms
proof (induction n arbitrary: s k)
  case 0
  then show ?case by simp
next
  case (Suc n)
  let ?s' = "snd (seq_next s)"
  have a: "seq_reverse_complements ?s'" using Suc.prems by (simp add: seq_next_def)
  have b: "seq_x ?s' = of_nat (Suc k div 2)"
    using Suc.prems by (cases "odd k") (auto simp: seq_next_def elim: oddE)
  have c: "seq_increment_flag ?s' = odd (Suc k)" using Suc.prems by (simp add: seq_next_def)
  have "seq_calls (Suc n) s = seq_x s # seq_calls n ?s'"
    by (simp add: seq_next_def)
  also have "\<dots> = of_nat (k div 2) # map (\<lambda>j. of_nat (j div 2)) [Suc k..<Suc k + n]"
    using Suc.IH [OF a b c] Suc.prems by simp
  also have "\<dots> = map (\<lambda>j. of_nat (j div 2)) [k..<k + Suc n]"
    by (subst (2) upt_rec) simp
  finally show ?case .
qed

lemma seq_calls_plain:
  assumes "\<not> seq_reverse_complements s" and "seq_x s = of_nat k"
  shows "seq_calls n s = map of_nat [k..<k + n]"
  using assms
proof (induction n arbitrary: s k)
  case 0
  then show ?case by simp
next
  case (Suc n)
  let ?s' = "snd (seq_next s)"
  have a: "\<not> seq_reverse_complements ?s'" using Suc.prems by (simp add: seq_next_def)
  have b: "seq_x ?s' = of_nat (Suc k)" using Suc.prems by (simp add: seq_next_def)
  have "seq_calls (Suc n) s = seq_x s # seq_calls n ?s'"
    by (simp add: seq_next_def)
  also have "\<dots> = of_nat k # map of_nat [Suc k..<Suc k + n]"
    using Suc.IH [OF a b] Suc.prems by simp
  also have "\<dots> = map of_nat [k..<k + Suc n]"
    by (subst (2) upt_rec) simp
  finally show ?case .
qed

lemma cf_getline_exhausted:
  "pending s = [] \<Longrightarrow> cf_getline s = Inl (Runtime_Error ''Error: more colors than sequences.'')"
proof (induction s rule: cf_getline.induct)
  case (1 s)
  from "1.prems" have in_nil: "cf_in s = []" by (simp add: pending_def)
  show ?case
  proof (cases "cf_current_file_idx s + 1 \<ge> length (cf_filenames s)")
    case True
    then show ?thesis using in_nil by (simp add: cf_getline.simps [of s])
  next
    case False
    let ?s1 = "s\<lparr>cf_current_file_idx := cf_current_file_idx s + 1,
                   cf_in := cf_filenames s ! (cf_current_file_idx s + 1)\<rparr>"
    have "pending ?s1 = pending s"
      using False in_nil by (simp add: pending_def Cons_nth_drop_Suc [symmetric])
    then have "cf_getline ?s1 = Inl (Runtime_Error ''Error: more colors than sequences.'')"
      using "1.IH" [OF in_nil False] "1.prems" by simp
    then show ?thesis using False in_nil by (simp add: cf_getline.simps [of s])
  qed
qed

lemma cf_getline_line:
  "pending s = l # ls \<Longrightarrow>
   \<exists>s'. cf_getline s = Inr (l, s') \<and> pending s' = ls \<and> cf_x s' = cf_x s \<and>
        cf_reverse_complements s' = cf_reverse_complements s \<and> cf_rc_flag s' = cf_rc_flag s"
proof (induction s rule: cf_getline.induct)
  case (1 s)
  show ?case
  proof (cases "cf_in s")
    case (Cons line rest)
    then show ?thesis using "1.prems"
      by (simp add: cf_getline.simps [of s] pending_def)
  next
    case Nil
    have notlast: "\<not> cf_current_file_idx s + 1 \<ge> length (cf_filenames s)"
      using "1.prems" Nil by (auto simp: pending_def)
    let ?s1 = "s\<lparr>cf_current_file_idx := cf_current_file_idx s + 1,
                   cf_in := cf_filenames s ! (cf_current_file_idx s + 1)\<rparr>"
    have "pending ?s1 = pending s"
      using notlast Nil by (simp add: pending_def Cons_nth_drop_Suc [symmetric])
    then have "pending ?s1 = l # ls" using "1.prems" by simp
    from "1.IH" [OF Nil notlast this] obtain s' where
      "cf_getline ?s1 = Inr (l, s')" "pending s' = ls" "cf_x s' = cf_x ?s1"
      "cf_reverse_complements s' = cf_reverse_complements ?s1" "cf_rc_flag s' = cf_rc_flag ?s1"
      by blast
    then show ?thesis using notlast Nil by (simp add: cf_getline.simps [of s])
  qed
qed

lemma pending_update [simp]:
  "pending (s\<lparr>cf_x := x, cf_rc_flag := f\<rparr>) = pending s"
  "pending (s\<lparr>cf_rc_flag := f\<rparr>) = pending s"
  "pending (s\<lparr>cf_x := x\<rparr>) = pending s"
  by (simp_all add: pending_def)

lemma cf_calls_rc:
  assumes "cf_reverse_complements s" and "n \<le> length (expected_rc p s)"
  shows "cf_calls p n s = Inr (take n (expected_rc p s))"
  using assms
proof (induction n arbitrary: s)
  case 0
  then show ?case by simp
next
  case (Suc n)
  show ?case
  proof (cases "cf_rc_flag s")
    case True
    let ?s' = "s\<lparr>cf_rc_flag := \<not> cf_rc_flag s\<rparr>"
    have nx: "cf_next p s = Inr (cf_x s, ?s')"
      using True Suc.prems(1) by (simp add: cf_next_def)
    have ex: "expected_rc p s = cf_x s # expected_rc p ?s'"
      using True by (simp add: expected_rc_def)
    have "cf_calls p n ?s' = Inr (take n (expected_rc p ?s'))"
      using Suc.prems ex by (intro Suc.IH) simp_all
    then show ?thesis using nx ex by simp
  next
    case False
    from Suc.prems(2) False obtain l ls where pl: "pending s = l # ls"
      by (cases "pending s") (simp_all add: expected_rc_def)
    from cf_getline_line [OF pl] obtain s1 where
      g: "cf_getline s = Inr (l, s1)" and s1: "pending s1 = ls" "cf_x s1 = cf_x s"
      "cf_reverse_complements s1 = cf_reverse_complements s" "cf_rc_flag s1 = cf_rc_flag s"
      by blast
    let ?s' = "s1\<lparr>cf_x := p l, cf_rc_flag := \<not> cf_rc_flag s1\<rparr>"
    have nx: "cf_next p s = Inr (p l, ?s')"
      using False g by (simp add: cf_next_def)
    have ex: "expected_rc p s = p l # expected_rc p ?s'"
      using False pl s1 by (simp add: expected_rc_def)
    have "cf_calls p n ?s' = Inr (take n (expected_rc p ?s'))"
      using Suc.prems ex s1 by (intro Suc.IH) simp_all
    then show ?thesis using nx ex by simp
  qed
qed

lemma cf_calls_plain:
  assumes "\<not> cf_reverse_complements s" and "n \<le> length (pending s)"
  shows "cf_calls p n s = Inr (take n (map p (pending s)))"
  using assms
proof (induction n arbitrary: s)
  case 0
  then show ?case by simp
next
  case (Suc n)
  from Suc.prems(2) obtain l ls where pl: "pending s = l # ls"
    by (cases "pending s") simp_all
  from cf_getline_line [OF pl] obtain s1 where
    g: "cf_getline s = Inr (l, s1)" and s1: "pending s1 = ls" "cf_x s1 = cf_x s"
    "cf_reverse_complements s1 = cf_reverse_complements s" "cf_rc_flag s1 = cf_rc_flag s"
    by blast
  let ?s' = "s1\<lparr>cf_x := p l, cf_rc_flag := \<not> cf_rc_flag s1\<rparr>"
  have nx: "cf_next p s = Inr (p l, ?s')"
    using Suc.prems(1) g by (simp add: cf_next_def)
  have "cf_calls p n ?s' = Inr (take n (map p (pending ?s')))"
    using Suc.prems pl s1 by (intro Suc.IH) simp_all
  then show ?case using nx pl s1 by simp
qed

lemma Colorfile_Stream_pending:
  assumes "files \<noteq> []"
  shows "\<exists>s. Colorfile_Stream files rc x0 = Inr s \<and> pending s = concat files \<and>
             cf_reverse_complements s = rc \<and> \<not> cf_rc_flag s"
proof -
  have "files ! 0 @ concat (drop 1 files) = concat files"
    using assms by (cases files) simp_all
  then show ?thesis using assms by (simp add: Colorfile_Stream_def pending_def)
qed

lemma length_twice_each: "length (twice_each xs) = 2 * length xs"
  by (induction xs) simp_all

lemma nth_twice_each: "k < 2 * length xs \<Longrightarrow> twice_each xs ! k = xs ! (k div 2)"
proof (induction xs arbitrary: k)
  case Nil
  then show ?case by simp
next
  case (Cons x xs)
  show ?case
  proof (cases k)
    case 0
    then show ?thesis by simp
  next
    case (Suc k')
    show ?thesis
    proof (cases k')
      case 0
      with Suc show ?thesis by simp
    next
      case (Suc k'')
      with \<open>k = Suc k'\<close> Cons.prems have "k'' < 2 * length xs" by simp
      from Cons.IH [OF this] \<open>k = Suc k'\<close> Suc show ?thesis by simp
    qed
  qed
qed

declare fc_skip.simps [simp del]

lemma fc_skip_remaining:
  "fc_remaining s = i # rest \<Longrightarrow>
   \<exists>s'. fc_skip s = Inr s' \<and> fc_cur_file_idx s' = i \<and>
        fc_seq_count_in_file s' = fc_seq_count_in_file s \<and>
        fc_cur_file_idx s' < length (fc_seq_count_in_file s') \<and>
        fc_cur_file_seq_idx s' < fc_seq_count_in_file s' ! fc_cur_file_idx s' \<and>
        fc_remaining s' = i # rest"
proof (induction s rule: fc_skip.induct)
  case (1 s)
  have inr: "fc_cur_file_idx s < length (fc_seq_count_in_file s)"
    using "1.prems" by (auto simp: fc_remaining_def split: if_splits)
  show ?case
  proof (cases "fc_cur_file_seq_idx s \<ge> fc_seq_count_in_file s ! fc_cur_file_idx s")
    case True
    let ?s1 = "s\<lparr>fc_cur_file_idx := fc_cur_file_idx s + 1, fc_cur_file_seq_idx := 0\<rparr>"
    have "fc_remaining ?s1 = fc_remaining s"
      using True inr by (auto simp: fc_remaining_def upt_conv_Cons)
    then have "fc_remaining ?s1 = i # rest" using "1.prems" by simp
    from "1.IH" [OF inr True this] obtain s' where
      "fc_skip ?s1 = Inr s'" "fc_cur_file_idx s' = i"
      "fc_seq_count_in_file s' = fc_seq_count_in_file ?s1"
      "fc_cur_file_idx s' < length (fc_seq_count_in_file s')"
      "fc_cur_file_seq_idx s' < fc_seq_count_in_file s' ! fc_cur_file_idx s'"
      "fc_remaining s' = i # rest"
      by blast
    then show ?thesis using True inr by (simp add: fc_skip.simps [of s])
  next
    case False
    then have "fc_skip s = Inr s" using inr by (simp add: fc_skip.simps [of s])
    moreover have "fc_cur_file_idx s = i"
      using "1.prems" False inr
      by (cases "fc_seq_count_in_file s ! fc_cur_file_idx s - fc_cur_file_seq_idx s")
        (simp_all add: fc_remaining_def)
    ultimately show ?thesis using "1.prems" False inr by simp
  qed
qed

lemma fc_next_remaining:
  assumes "fc_remaining s = i # rest"
  shows "\<exists>s'. fc_next s = Inr (of_nat i, s') \<and> fc_remaining s' = rest"
proof -
  from fc_skip_remaining [OF assms] obtain s1 where
    sk: "fc_skip s = Inr s1" and i: "fc_cur_file_idx s1 = i"
    and inr: "fc_cur_file_idx s1 < length (fc_seq_count_in_file s1)"
    and lt: "fc_cur_file_seq_idx s1 < fc_seq_count_in_file s1 ! fc_cur_file_idx s1"
    and rem: "fc_remaining s1 = i # rest"
    by blast
  let ?s' = "s1\<lparr>fc_cur_file_seq_idx := fc_cur_file_seq_idx s1 + 1\<rparr>"
  have nx: "fc_next s = Inr (of_nat i, ?s')"
    using sk i by (simp add: fc_next_def)
  obtain d where d: "fc_seq_count_in_file s1 ! fc_cur_file_idx s1 - fc_cur_file_seq_idx s1 = Suc d"
    using lt by (metis Suc_diff_Suc)
  then have d': "fc_seq_count_in_file s1 ! fc_cur_file_idx s1 - (fc_cur_file_seq_idx s1 + 1) = d"
    by simp
  have "fc_remaining s1 = fc_cur_file_idx s1 # fc_remaining ?s'"
    using inr d d' by (simp add: fc_remaining_def)
  then have "fc_remaining ?s' = rest" using rem by simp
  then show ?thesis using nx by blast
qed

lemma fc_calls_remaining:
  "n \<le> length (fc_remaining s) \<Longrightarrow>
   fc_calls n s = Inr (map of_nat (take n (fc_remaining s)))"
proof (induction n arbitrary: s)
  case 0
  then show ?case by simp
next
  case (Suc n)
  then obtain i rest where r: "fc_remaining s = i # rest"
    by (cases "fc_remaining s") simp_all
  from fc_next_remaining [OF r] obtain s' where
    nx: "fc_next s = Inr (of_nat i, s')" and r': "fc_remaining s' = rest"
    by blast
  have "fc_calls n s' = Inr (map of_nat (take n (fc_remaining s')))"
    using Suc.prems r r' by (intro Suc.IH) simp
  then show ?case using nx r r' by simp
qed

lemma fc_remaining_initial:
  "fc_remaining \<lparr>fc_seq_count_in_file = counts, fc_cur_file_idx = 0, fc_cur_file_seq_idx = 0,
                 fc_reverse_complements = rc\<rparr> = file_colors counts"
  by (cases counts) (simp_all add: fc_remaining_def file_colors_def upt_conv_Cons del: upt_Suc)

lemma twice_each_append: "twice_each (xs @ ys) = twice_each xs @ twice_each ys"
  by (induction xs) simp_all

lemma twice_each_replicate: "twice_each (replicate n x) = replicate (n * 2) x"
  by (induction n) simp_all

lemma twice_each_concat: "twice_each (concat xss) = concat (map twice_each xss)"
  by (induction xss) (simp_all add: twice_each_append)

lemma file_colors_doubled: "file_colors (map (\<lambda>c. c * 2) counts) = twice_each (file_colors counts)"
proof -
  have "map (\<lambda>i. replicate (map (\<lambda>c. c * 2) counts ! i) i) [0..<length counts] =
        map (\<lambda>i. replicate (counts ! i * 2) i) [0..<length counts]"
    by (rule map_cong) simp_all
  then have "file_colors (map (\<lambda>c. c * 2) counts) =
        concat (map (\<lambda>i. replicate (counts ! i * 2) i) [0..<length counts])"
    unfolding file_colors_def length_map by (rule arg_cong)
  also have "\<dots> = twice_each (file_colors counts)"
    by (simp add: file_colors_def twice_each_concat twice_each_replicate o_def)
  finally show ?thesis .
qed

lemma sint_small:
  assumes "m < 2 ^ 63"
  shows "sint (word_of_nat m :: 64 word) = int m"
proof -
  have "int m < 2 ^ 63" using assms by (metis of_nat_less_iff of_nat_numeral of_nat_power)
  then have "signed_take_bit 63 (int m) = int m"
    by (intro signed_take_bit_int_eq_self) simp_all
  then show ?thesis by (simp add: signed_of_nat)
qed

text \<open>
  Claim C9. With reverse complements enabled every color stream yields each color twice in
  a row: the calls number \<open>2m\<close> and \<open>2m + 1\<close> (counting from 0) of
  \<^verbatim>\<open>Unique_For_Each_Sequence_Color_Stream\<close> both return \<open>m\<close>, as a 64-bit integer, which
  is \<open>m\<close> itself below \<open>2^63\<close>; \<^verbatim>\<open>Colorfile_Stream\<close> returns the colors parsed from the
  lines of the color files, each twice in a row, for as many calls as there are colors;
  \<^verbatim>\<open>Unique_For_Each_File_Color_Stream\<close> returns the file index of every sequence twice in
  a row. With reverse complements disabled each color is yielded once.
\<close>

theorem color_streams_repeat_each_color:
  "seq_calls n (Unique_For_Each_Sequence_Color_Stream True) = map (\<lambda>j. of_nat (j div 2)) [0..<n] \<and>
   seq_calls (2 * m + 2) (Unique_For_Each_Sequence_Color_Stream True) ! (2 * m) = of_nat m \<and>
   seq_calls (2 * m + 2) (Unique_For_Each_Sequence_Color_Stream True) ! (2 * m + 1) = of_nat m \<and>
   seq_calls n (Unique_For_Each_Sequence_Color_Stream False) = map of_nat [0..<n] \<and>
   (m < 2 ^ 63 \<longrightarrow> sint (word_of_nat m :: 64 word) = int m) \<and>
   (files \<noteq> [] \<and> n \<le> 2 * length (concat files) \<longrightarrow>
      (\<exists>s. Colorfile_Stream files True x0 = Inr s \<and>
           cf_calls p n s = Inr (take n (twice_each (map p (concat files)))))) \<and>
   (files \<noteq> [] \<and> n \<le> length (concat files) \<longrightarrow>
      (\<exists>s. Colorfile_Stream files False x0 = Inr s \<and>
           cf_calls p n s = Inr (take n (map p (concat files))))) \<and>
   (n \<le> 2 * length (file_colors (map count filenames)) \<longrightarrow>
      fc_calls n (Unique_For_Each_File_Color_Stream count filenames True) =
        Inr (map of_nat (take n (twice_each (file_colors (map count filenames)))))) \<and>
   (n \<le> length (file_colors (map count filenames)) \<longrightarrow>
      fc_calls n (Unique_For_Each_File_Color_Stream count filenames False) =
        Inr (map of_nat (take n (file_colors (map count filenames)))))"
proof (intro conjI impI)
  have rc: "seq_calls k (Unique_For_Each_Sequence_Color_Stream True) =
            map (\<lambda>j. of_nat (j div 2)) [0..<k]" for k
    using seq_calls_rc [of "Unique_For_Each_Sequence_Color_Stream True" 0 k]
    by (simp add: Unique_For_Each_Sequence_Color_Stream_def)
  show "seq_calls n (Unique_For_Each_Sequence_Color_Stream True) =
        map (\<lambda>j. of_nat (j div 2)) [0..<n]"
    by (rule rc)
  show "seq_calls (2 * m + 2) (Unique_For_Each_Sequence_Color_Stream True) ! (2 * m) = of_nat m"
    unfolding rc by (simp del: upt_Suc)
  show "seq_calls (2 * m + 2) (Unique_For_Each_Sequence_Color_Stream True) ! (2 * m + 1) = of_nat m"
    unfolding rc by (simp del: upt_Suc)
  show "seq_calls n (Unique_For_Each_Sequence_Color_Stream False) = map of_nat [0..<n]"
    using seq_calls_plain [of "Unique_For_Each_Sequence_Color_Stream False" 0 n]
    by (simp add: Unique_For_Each_Sequence_Color_Stream_def)
next
  assume "m < 2 ^ 63"
  then show "sint (word_of_nat m :: 64 word) = int m" by (rule sint_small)
next
  assume a: "files \<noteq> [] \<and> n \<le> 2 * length (concat files)"
  from Colorfile_Stream_pending [of files True x0] a obtain s where
    s: "Colorfile_Stream files True x0 = Inr s" "pending s = concat files"
      "cf_reverse_complements s = True" "\<not> cf_rc_flag s"
    by blast
  have e: "expected_rc p s = twice_each (map p (concat files))"
    using s by (simp add: expected_rc_def)
  have "cf_calls p n s = Inr (take n (expected_rc p s))"
    using s(3) a e by (intro cf_calls_rc) (simp_all add: length_twice_each)
  then show "\<exists>s. Colorfile_Stream files True x0 = Inr s \<and>
           cf_calls p n s = Inr (take n (twice_each (map p (concat files))))"
    using s(1) e by simp
next
  assume a: "files \<noteq> [] \<and> n \<le> length (concat files)"
  from Colorfile_Stream_pending [of files False x0] a obtain s where
    s: "Colorfile_Stream files False x0 = Inr s" "pending s = concat files"
      "cf_reverse_complements s = False" "\<not> cf_rc_flag s"
    by blast
  have "cf_calls p n s = Inr (take n (map p (pending s)))"
    using s a by (intro cf_calls_plain) simp_all
  then show "\<exists>s. Colorfile_Stream files False x0 = Inr s \<and>
           cf_calls p n s = Inr (take n (map p (concat files)))"
    using s(1,2) by simp
next
  assume a: "n \<le> 2 * length (file_colors (map count filenames))"
  let ?s = "Unique_For_Each_File_Color_Stream count filenames True"
  have "fc_remaining ?s = file_colors (map (\<lambda>c. c * 2) (map count filenames))"
    using fc_remaining_initial [of "map (\<lambda>c. c * 2) (map count filenames)" True]
    by (simp add: Unique_For_Each_File_Color_Stream_def o_def)
  then have r: "fc_remaining ?s = twice_each (file_colors (map count filenames))"
    by (simp only: file_colors_doubled)
  show "fc_calls n ?s = Inr (map of_nat (take n (twice_each (file_colors (map count filenames)))))"
    using fc_calls_remaining [of n ?s] a by (simp add: r length_twice_each)
next
  assume a: "n \<le> length (file_colors (map count filenames))"
  let ?s = "Unique_For_Each_File_Color_Stream count filenames False"
  have r: "fc_remaining ?s = file_colors (map count filenames)"
    using fc_remaining_initial [of "map count filenames" False]
    by (simp add: Unique_For_Each_File_Color_Stream_def)
  show "fc_calls n ?s = Inr (map of_nat (take n (file_colors (map count filenames))))"
    using fc_calls_remaining [of n ?s] a by (simp add: r)
qed

theorem color_streams_repeat_each_color_witness:
  "seq_calls 4 (Unique_For_Each_Sequence_Color_Stream True) = [0, 0, 1, 1] \<and>
   seq_calls 3 (Unique_For_Each_Sequence_Color_Stream False) = [0, 1, 2] \<and>
   [[''ab''], [], [''c'']] \<noteq> [] \<and>
   4 \<le> 2 * length (concat [[''ab''], [], [''c'']]) \<and>
   (\<exists>s. Colorfile_Stream [[''ab''], [], [''c'']] True 0 = Inr s \<and>
        cf_calls (\<lambda>l. of_nat (length l)) 4 s = Inr [2, 2, 1, 1]) \<and>
   2 \<le> length (concat [[''ab''], [], [''c'']]) \<and>
   (\<exists>s. Colorfile_Stream [[''ab''], [], [''c'']] False 0 = Inr s \<and>
        cf_calls (\<lambda>l. of_nat (length l)) 2 s = Inr [2, 1]) \<and>
   4 \<le> 2 * length (file_colors (map length [''a'', ''bb''])) \<and>
   fc_calls 4 (Unique_For_Each_File_Color_Stream length [''a'', ''bb''] True) = Inr [0, 0, 1, 1] \<and>
   3 \<le> length (file_colors (map length [''a'', ''bb''])) \<and>
   fc_calls 3 (Unique_For_Each_File_Color_Stream length [''a'', ''bb''] False) = Inr [0, 1, 1]"
proof -
  let ?files = "[[''ab''], [], [''c'']]"
  let ?p = "\<lambda>l::string. (of_nat (length l) :: 64 word)"
  have e1: "map (\<lambda>j. of_nat (j div 2)) [0..<4] = [0, 0, 1, 1 :: 64 word]"
    and e2: "map of_nat [0..<3] = [0, 1, 2 :: 64 word]"
    and e3: "take 4 (twice_each (map ?p (concat ?files))) = [2, 2, 1, 1]"
    and e4: "take 2 (map ?p (concat ?files)) = [2, 1]"
    and e5: "map of_nat (take 4 (twice_each (file_colors (map length [''a'', ''bb''])))) = [0, 0, 1, 1 :: 64 word]"
    and e6: "map of_nat (take 3 (file_colors (map length [''a'', ''bb'']))) = [0, 1, 1 :: 64 word]"
    by code_simp+
  have h1: "?files \<noteq> []" by simp
  have h2: "4 \<le> 2 * length (concat ?files)" and h3: "2 \<le> length (concat ?files)"
    and h4: "4 \<le> 2 * length (file_colors (map length [''a'', ''bb'']))"
    and h5: "3 \<le> length (file_colors (map length [''a'', ''bb'']))"
    by code_simp+
  note t4 = color_streams_repeat_each_color [of 4 1 ?files 0 ?p length "[''a'', ''bb'']"]
  note t3 = color_streams_repeat_each_color [of 3 1 ?files 0 ?p length "[''a'', ''bb'']"]
  note t2 = color_streams_repeat_each_color [of 2 1 ?files 0 ?p length "[''a'', ''bb'']"]
  have a: "seq_calls 4 (Unique_For_Each_Sequence_Color_Stream True) = [0, 0, 1, 1]"
    using t4 unfolding e1 by blast
  have b: "seq_calls 3 (Unique_For_Each_Sequence_Color_Stream False) = [0, 1, 2]"
    using t3 unfolding e2 by blast
  have c: "\<exists>s. Colorfile_Stream ?files True 0 = Inr s \<and> cf_calls ?p 4 s = Inr [2, 2, 1, 1]"
    using t4 h1 h2 unfolding e3 by blast
  have d: "\<exists>s. Colorfile_Stream ?files False 0 = Inr s \<and> cf_calls ?p 2 s = Inr [2, 1]"
    using t2 h1 h3 unfolding e4 by blast
  have e: "fc_calls 4 (Unique_For_Each_File_Color_Stream length [''a'', ''bb''] True) = Inr [0, 0, 1, 1]"
    using t4 h4 unfolding e5 by blast
  have f: "fc_calls 3 (Unique_For_Each_File_Color_Stream length [''a'', ''bb''] False) = Inr [0, 1, 1]"
    using t3 h5 unfolding e6 by blast
  show ?thesis using a b h1 h2 c h3 d h4 e h5 f by (intro conjI)
qed


section \<open>From a node to its color set id\<close>










section \<open>Writing a coloring and reading it back\<close>








text \<open>The three outcomes of the comparison of the type id in \<^verbatim>\<open>Coloring::load\<close>.\<close>

lemma Coloring_load_known_tag:
  assumes "load_string lib file = Some (tag, rest)" and "tag_of T = Some tag"
  shows "Coloring_load lib T sets_load file index c =
           Coloring_load_body lib sets_load rest (c\<lparr>index_ptr := Some index\<rparr>)"
  using assms by (cases T) (auto simp add: Coloring_load_def tag_of_def)

lemma Coloring_load_other_tag:
  assumes "load_string lib file = Some (tag, rest)" and "tag \<in> set known_type_ids"
    and "tag_of T \<noteq> Some tag"
  shows "Coloring_load lib T sets_load file index c = Inl (WrongTemplateParameterException T)"
  using assms by (cases T) (auto simp add: Coloring_load_def tag_of_def known_type_ids_def)

lemma Coloring_load_unknown_tag:
  assumes "load_string lib file = Some (tag, rest)" and "tag \<notin> set known_type_ids"
  shows "Coloring_load lib T sets_load file index c =
           Inl (Runtime_Error (''Unknown color set type:'' @ tag))"
  using assms by (simp add: Coloring_load_def known_type_ids_def)

lemma hybrid_body_not_wrong:
  "Coloring_load_body lib (Color_Set_Storage_load lib) is c \<noteq>
     Inl (WrongTemplateParameterException T)"
  by (auto simp add: Coloring_load_body_def Color_Set_Storage_load_def Sparse_Uint_Array_load_def
      split: option.splits sum.splits prod.splits)





lemma example_coloring_sets: "build_storage [[5], [7]] = Inr (sets example_coloring)"
  by (simp add: example_two_arrays example_coloring_def)



text \<open>
  Claim C5. Let the type id read from the file be \<open>tag\<close>. If \<open>tag\<close> is one of the three
  known ids and not the id of the template parameter \<open>T\<close>, \<^verbatim>\<open>Coloring<T>::load\<close> throws the
  \<^verbatim>\<open>WrongTemplateParameterException\<close> of \<^verbatim>\<open>Coloring<T>\<close>, whatever else the file holds. If
  \<open>tag\<close> is none of the three, \<^verbatim>\<open>load\<close> throws the runtime error "Unknown color set type:"
  followed by \<open>tag\<close>, and so does \<^verbatim>\<open>load_coloring\<close>, at its first attempt. If \<open>tag\<close> is a
  known id, \<^verbatim>\<open>load_coloring\<close> catches the exception of every variant before the one of
  \<open>tag\<close> and ends as the \<^verbatim>\<open>load\<close> of that variant ends: with its coloring in the variant,
  or with its failure; \<^verbatim>\<open>load\<close> for the hybrid sets never throws a
  \<^verbatim>\<open>WrongTemplateParameterException\<close> after the comparison, and where the \<^verbatim>\<open>load\<close> of
  one of the other two storages, a parameter here, throws the one its handler catches,
  \<^verbatim>\<open>load_coloring\<close> ends with "Error: could not load color structure.".
\<close>

theorem variant_open_load:
  assumes "load_string lib file = Some (tag, rest)"
  shows "(tag \<in> set known_type_ids \<and> tag_of T \<noteq> Some tag \<longrightarrow>
            Coloring_load lib T sets_load file SBWT c = Inl (WrongTemplateParameterException T)) \<and>
         (tag \<notin> set known_type_ids \<longrightarrow>
            Coloring_load lib T sets_load file SBWT c =
              Inl (Runtime_Error (''Unknown color set type:'' @ tag)) \<and>
            load_coloring lib roaring_load roaring_empty bitmagic_load bitmagic_empty file SBWT =
              Inl (Runtime_Error (''Unknown color set type:'' @ tag))) \<and>
         (tag = ''sdsl-hybrid-v4'' \<longrightarrow>
            load_coloring lib roaring_load roaring_empty bitmagic_load bitmagic_empty file SBWT =
              (case Coloring_load lib Color_Set_t (Color_Set_Storage_load lib) file SBWT
                      (Coloring_empty Color_Set_Storage_empty) of
                 Inl e \<Rightarrow> Inl e
               | Inr (c', _) \<Rightarrow> Inr (Hybrid_Coloring c'))) \<and>
         (tag = ''roaring-v0'' \<longrightarrow>
            load_coloring lib roaring_load roaring_empty bitmagic_load bitmagic_empty file SBWT =
              (case Coloring_load lib Roaring_Color_Set_t roaring_load file SBWT
                      (Coloring_empty roaring_empty) of
                 Inl e \<Rightarrow>
                   if e = WrongTemplateParameterException Roaring_Color_Set_t
                   then Inl (Runtime_Error ''Error: could not load color structure.'') else Inl e
               | Inr (c', _) \<Rightarrow> Inr (Roaring_Coloring c'))) \<and>
         (tag = ''bitmagic-v0'' \<longrightarrow>
            load_coloring lib roaring_load roaring_empty bitmagic_load bitmagic_empty file SBWT =
              (case Coloring_load lib Bit_Magic_Color_Set_t bitmagic_load file SBWT
                      (Coloring_empty bitmagic_empty) of
                 Inl e \<Rightarrow>
                   if e = WrongTemplateParameterException Bit_Magic_Color_Set_t
                   then Inl (Runtime_Error ''Error: could not load color structure.'') else Inl e
               | Inr (c', _) \<Rightarrow> Inr (Bit_Magic_Coloring c')))"
proof (intro conjI impI)
  assume "tag \<in> set known_type_ids \<and> tag_of T \<noteq> Some tag"
  then show "Coloring_load lib T sets_load file SBWT c = Inl (WrongTemplateParameterException T)"
    using Coloring_load_other_tag [OF assms] by blast
next
  assume "tag \<notin> set known_type_ids"
  then show "Coloring_load lib T sets_load file SBWT c =
      Inl (Runtime_Error (''Unknown color set type:'' @ tag))"
    by (rule Coloring_load_unknown_tag [OF assms])
next
  assume u: "tag \<notin> set known_type_ids"
  show "load_coloring lib roaring_load roaring_empty bitmagic_load bitmagic_empty file SBWT =
      Inl (Runtime_Error (''Unknown color set type:'' @ tag))"
    by (simp add: load_coloring_def Coloring_load_unknown_tag [OF assms u])
next
  assume t: "tag = ''sdsl-hybrid-v4''"
  have k: "Coloring_load lib Color_Set_t (Color_Set_Storage_load lib) file SBWT c1 =
      Coloring_load_body lib (Color_Set_Storage_load lib) rest (c1\<lparr>index_ptr := Some SBWT\<rparr>)"
    for c1
    by (rule Coloring_load_known_tag [OF assms]) (simp add: tag_of_def t)
  show "load_coloring lib roaring_load roaring_empty bitmagic_load bitmagic_empty file SBWT =
      (case Coloring_load lib Color_Set_t (Color_Set_Storage_load lib) file SBWT
              (Coloring_empty Color_Set_Storage_empty) of
         Inl e \<Rightarrow> Inl e
       | Inr (c', _) \<Rightarrow> Inr (Hybrid_Coloring c'))"
    unfolding load_coloring_def k
    using hybrid_body_not_wrong [of lib rest _ Color_Set_t]
    by (auto split: sum.splits)
next
  assume t: "tag = ''roaring-v0''"
  have k: "tag \<in> set known_type_ids"
    by (simp add: t known_type_ids_def)
  have w1: "Coloring_load lib Color_Set_t sl file SBWT c1 =
      Inl (WrongTemplateParameterException Color_Set_t)"
    for sl :: "byte list \<Rightarrow> color_set_storage \<Rightarrow> error + (color_set_storage \<times> byte list)" and c1
    by (rule Coloring_load_other_tag [OF assms k]) (simp add: tag_of_def t)
  show "load_coloring lib roaring_load roaring_empty bitmagic_load bitmagic_empty file SBWT =
      (case Coloring_load lib Roaring_Color_Set_t roaring_load file SBWT
              (Coloring_empty roaring_empty) of
         Inl e \<Rightarrow>
           if e = WrongTemplateParameterException Roaring_Color_Set_t
           then Inl (Runtime_Error ''Error: could not load color structure.'') else Inl e
       | Inr (c', _) \<Rightarrow> Inr (Roaring_Coloring c'))"
  proof -
    have w3: "Coloring_load lib Bit_Magic_Color_Set_t bitmagic_load file SBWT c3 =
        Inl (WrongTemplateParameterException Bit_Magic_Color_Set_t)" for c3
      by (rule Coloring_load_other_tag [OF assms k]) (simp add: tag_of_def t)
    show ?thesis
      by (simp add: load_coloring_def w1 w3 split: sum.splits)
  qed
next
  assume t: "tag = ''bitmagic-v0''"
  have k: "tag \<in> set known_type_ids"
    by (simp add: t known_type_ids_def)
  have w1: "Coloring_load lib Color_Set_t sl file SBWT c1 =
      Inl (WrongTemplateParameterException Color_Set_t)"
    for sl :: "byte list \<Rightarrow> color_set_storage \<Rightarrow> error + (color_set_storage \<times> byte list)" and c1
    by (rule Coloring_load_other_tag [OF assms k]) (simp add: tag_of_def t)
  have w2: "Coloring_load lib Roaring_Color_Set_t roaring_load file SBWT c2 =
      Inl (WrongTemplateParameterException Roaring_Color_Set_t)" for c2
    by (rule Coloring_load_other_tag [OF assms k]) (simp add: tag_of_def t)
  show "load_coloring lib roaring_load roaring_empty bitmagic_load bitmagic_empty file SBWT =
      (case Coloring_load lib Bit_Magic_Color_Set_t bitmagic_load file SBWT
              (Coloring_empty bitmagic_empty) of
         Inl e \<Rightarrow>
           if e = WrongTemplateParameterException Bit_Magic_Color_Set_t
           then Inl (Runtime_Error ''Error: could not load color structure.'') else Inl e
       | Inr (c', _) \<Rightarrow> Inr (Bit_Magic_Coloring c'))"
    by (simp add: load_coloring_def w1 w2 split: sum.splits)
qed

text \<open>
  A file with the type id \<open>roaring-v0\<close>: \<^verbatim>\<open>load\<close> for the hybrid sets throws the exception,
  and \<^verbatim>\<open>load_coloring\<close> returns the coloring of the second variant. A file with the type
  id \<open>zip\<close>: \<^verbatim>\<open>load_coloring\<close> fails.
\<close>

theorem variant_open_load_witness:
  "load_string example_library example_roaring_file =
     Some (''roaring-v0'',
           Sparse_Uint_Array_serialize example_library
             \<lparr>present = [], sua_values = empty_int_vector\<rparr> @ write_i64 0 @ write_i64 0) \<and>
   ''roaring-v0'' \<in> set known_type_ids \<and>
   tag_of Color_Set_t \<noteq> Some ''roaring-v0'' \<and>
   Coloring_load example_library Color_Set_t (Color_Set_Storage_load example_library)
     example_roaring_file example_index (Coloring_empty Color_Set_Storage_empty) =
     Inl (WrongTemplateParameterException Color_Set_t) \<and>
   load_coloring example_library (\<lambda>is (s :: unit). Inr (s, is)) ()
     (\<lambda>is (s :: unit). Inr (s, is)) () example_roaring_file example_index =
     Inr (Roaring_Coloring ((Coloring_empty ())\<lparr>index_ptr := Some example_index\<rparr>)) \<and>
   load_string example_library (serialize_string example_library ''zip'') = Some (''zip'', []) \<and>
   ''zip'' \<notin> set known_type_ids \<and>
   load_coloring example_library (\<lambda>is (s :: unit). Inr (s, is)) ()
     (\<lambda>is (s :: unit). Inr (s, is)) () (serialize_string example_library ''zip'') example_index =
     Inl (Runtime_Error ''Unknown color set type:zip'')"
proof -
  let ?unit_load = "\<lambda>(is :: byte list) (s :: unit). (Inr (s, is) :: error + unit \<times> byte list)"
  have f: "load_string example_library example_roaring_file =
      Some (''roaring-v0'',
            Sparse_Uint_Array_serialize example_library
              \<lparr>present = [], sua_values = empty_int_vector\<rparr> @ write_i64 0 @ write_i64 0)"
    by code_simp
  have k: "''roaring-v0'' \<in> set known_type_ids"
    by code_simp
  have d: "tag_of Color_Set_t \<noteq> Some ''roaring-v0''"
    by code_simp
  have b: "Coloring_load example_library Roaring_Color_Set_t ?unit_load
      example_roaring_file example_index (Coloring_empty ()) =
      Inr ((Coloring_empty ())\<lparr>index_ptr := Some example_index\<rparr>, [])"
    by code_simp
  have z: "load_string example_library (serialize_string example_library ''zip'') =
      Some (''zip'', [])"
    by code_simp
  have u: "''zip'' \<notin> set known_type_ids"
    by code_simp
  note r = variant_open_load [OF f, of Color_Set_t "Color_Set_Storage_load example_library"
      example_index "Coloring_empty Color_Set_Storage_empty" ?unit_load "()" ?unit_load "()"]
  note q = variant_open_load [OF z, of Color_Set_t "Color_Set_Storage_load example_library"
      example_index "Coloring_empty Color_Set_Storage_empty" ?unit_load "()" ?unit_load "()"]
  have 1: "Coloring_load example_library Color_Set_t (Color_Set_Storage_load example_library)
      example_roaring_file example_index (Coloring_empty Color_Set_Storage_empty) =
      Inl (WrongTemplateParameterException Color_Set_t)"
    using r k d by blast
  have "load_coloring example_library ?unit_load () ?unit_load () example_roaring_file
      example_index =
      (case Coloring_load example_library Roaring_Color_Set_t ?unit_load example_roaring_file
              example_index (Coloring_empty ()) of
         Inl e \<Rightarrow>
           if e = WrongTemplateParameterException Roaring_Color_Set_t
           then Inl (Runtime_Error ''Error: could not load color structure.'') else Inl e
       | Inr (c', _) \<Rightarrow> Inr (Roaring_Coloring c'))"
    using r by blast
  then have 2: "load_coloring example_library ?unit_load () ?unit_load () example_roaring_file
      example_index = Inr (Roaring_Coloring ((Coloring_empty ())\<lparr>index_ptr := Some example_index\<rparr>))"
    unfolding b by simp
  have "load_coloring example_library ?unit_load () ?unit_load ()
      (serialize_string example_library ''zip'') example_index =
      Inl (Runtime_Error (''Unknown color set type:'' @ ''zip''))"
    using q u by blast
  then have 3: "load_coloring example_library ?unit_load () ?unit_load ()
      (serialize_string example_library ''zip'') example_index =
      Inl (Runtime_Error ''Unknown color set type:zip'')"
    by simp
  from f k d 1 2 z u 3 show ?thesis
    by (intro conjI)
qed

end
